theory Spec2Isabelle
  imports Main "HOL-Library.Sublist" "HOL-Library.Log_Nat"
begin

section \<open>Python strings\<close>

text \<open>
  A Python \<open>str\<close> is modelled as a \<open>string\<close> whose characters are the code points
  0 to 255 (Latin-1): every statement below about "every text" is a statement about every
  text over these code points. The library functions the program calls on strings are
  written out for that range.

  \<open>py_isspace\<close> is \<open>str.isspace\<close> on one character, which is also what \<open>str.strip()\<close>
  removes and what \<open>\s\<close> matches in a \<open>re\<close> pattern over \<open>str\<close>: tab, line feed,
  vertical tab, form feed, carriage return, the separators 0x1C to 0x1F, space, NEL (0x85)
  and the no-break space (0xA0).
\<close>

definition py_isspace :: "char \<Rightarrow> bool" where
  "py_isspace c = (of_char c \<in> {9, 10, 11, 12, 13, 28, 29, 30, 31, 32, 133, 160 :: nat})"

text \<open>\<open>str.lower()\<close>: A to Z and the Latin-1 capitals 0xC0 to 0xDE (the multiplication
  sign 0xD7 apart) move up by 32.\<close>

definition py_lower_char :: "char \<Rightarrow> char" where
  "py_lower_char c =
     (let n = (of_char c :: nat)
      in if (65 \<le> n \<and> n \<le> 90) \<or> (192 \<le> n \<and> n \<le> 222 \<and> n \<noteq> 215)
         then char_of (n + 32) else c)"

definition py_lower :: "string \<Rightarrow> string" where
  "py_lower s = map py_lower_char s"

text \<open>\<open>s.strip()\<close> with no argument.\<close>

definition py_strip :: "string \<Rightarrow> string" where
  "py_strip s = rev (dropWhile py_isspace (rev (dropWhile py_isspace s)))"

text \<open>\<open>sub in s\<close> on strings: \<open>sub\<close> occurs in \<open>s\<close> as a contiguous block.\<close>

fun py_contains :: "string \<Rightarrow> string \<Rightarrow> bool" where
  "py_contains sub [] = (sub = [])"
| "py_contains sub (c # cs) = (prefix sub (c # cs) \<or> py_contains sub cs)"

text \<open>\<open>s.replace(old, new)\<close> for a non-empty \<open>old\<close> (the program never passes an
  empty one): the occurrences of \<open>old\<close> are replaced from the left, without overlap.\<close>

fun py_replace :: "string \<Rightarrow> string \<Rightarrow> string \<Rightarrow> string" where
  "py_replace old new [] = []"
| "py_replace old new (c # cs) =
     (if old \<noteq> [] \<and> prefix old (c # cs)
      then new @ py_replace old new (drop (length old - 1) cs)
      else c # py_replace old new cs)"

text \<open>\<open>s.split('\n')\<close>: the pieces between line feeds, at least one piece.\<close>

fun py_split_lines :: "string \<Rightarrow> string list" where
  "py_split_lines [] = [[]]"
| "py_split_lines (c # cs) =
     (if c = CHR 0x0A then [] # py_split_lines cs
      else (case py_split_lines cs of
              l # ls \<Rightarrow> (c # l) # ls
            | [] \<Rightarrow> [[c]]))"

text \<open>\<open>sep.join(xs)\<close>.\<close>

fun py_join :: "string \<Rightarrow> string list \<Rightarrow> string" where
  "py_join sep [] = []"
| "py_join sep [x] = x"
| "py_join sep (x # y # ys) = x @ sep @ py_join sep (y # ys)"

section \<open>Python numbers\<close>

text \<open>Decimal digits, and \<open>str\<close> of an \<open>int\<close>.\<close>

definition is_digit :: "char \<Rightarrow> bool" where
  "is_digit c = (48 \<le> (of_char c :: nat) \<and> (of_char c :: nat) \<le> 57)"

definition digit_char :: "nat \<Rightarrow> char" where
  "digit_char d = ''0123456789'' ! d"

fun show_nat :: "nat \<Rightarrow> string" where
  "show_nat n =
     (if n < 10 then [digit_char n] else show_nat (n div 10) @ [digit_char (n mod 10)])"

declare show_nat.simps [simp del]

definition show_int :: "int \<Rightarrow> string" where
  "show_int i = (if i < 0 then CHR ''-'' # show_nat (nat (- i)) else show_nat (nat i))"

definition read_nat :: "string \<Rightarrow> nat" where
  "read_nat ds = foldl (\<lambda>a c. 10 * a + (of_char c - 48)) 0 ds"

subsection \<open>Floats\<close>

text \<open>
  A Python \<open>float\<close> is an IEEE 754 double. \<open>Fin sg m e\<close> is the finite double of sign
  \<open>sg\<close> (\<open>True\<close> for minus) and magnitude \<open>m * 2 ^ e\<close>, kept in one form per double:
  a normal number has \<open>2 ^ 52 \<le> m < 2 ^ 53\<close> and \<open>- 1074 \<le> e \<le> 971\<close>, a subnormal one
  has \<open>0 < m < 2 ^ 52\<close> and \<open>e = - 1074\<close>, and zero is \<open>Fin sg 0 0\<close>. The functions below
  return doubles in this form only.
\<close>

datatype pyfloat = Fin bool nat int | Inf bool | NaN

text \<open>
  A positive rational is a pair \<open>(num, den)\<close> of naturals. \<open>scale2 num den j\<close> is
  \<open>num / den / 2 ^ j\<close>, \<open>scale10 num den j\<close> is \<open>num / den / 10 ^ j\<close>, and
  \<open>floor_log b num den\<close> is the integer \<open>k\<close> with \<open>b ^ k \<le> num / den < b ^ (k + 1)\<close>:
  the digit counts of \<open>num\<close> and \<open>den\<close> place it within one, and a comparison decides.
\<close>

definition scale2 :: "nat \<Rightarrow> nat \<Rightarrow> int \<Rightarrow> nat \<times> nat" where
  "scale2 num den j = (if 0 \<le> j then (num, den * 2 ^ nat j) else (num * 2 ^ nat (- j), den))"

definition scale10 :: "nat \<Rightarrow> nat \<Rightarrow> int \<Rightarrow> nat \<times> nat" where
  "scale10 num den j = (if 0 \<le> j then (num, den * 10 ^ nat j) else (num * 10 ^ nat (- j), den))"

definition floor_log :: "nat \<Rightarrow> nat \<Rightarrow> nat \<Rightarrow> int" where
  "floor_log b num den =
     (let j = int (floorlog b num) - int (floorlog b den);
          nd = (if 0 \<le> j then (num, den * b ^ nat j) else (num * b ^ nat (- j), den))
      in if snd nd \<le> fst nd then j else j - 1)"

definition round_half_even :: "nat \<Rightarrow> nat \<Rightarrow> nat" where
  "round_half_even num den =
     (let q = num div den; r = num mod den
      in if 2 * r < den then q
         else if den < 2 * r then q + 1
         else if even q then q else q + 1)"

text \<open>
  The double nearest to \<open>num / den\<close>, ties to the even significand: 53 bits of
  significand, fewer below \<open>2 ^ - 1022\<close>; what rounds to \<open>2 ^ 1024\<close> or more is infinite.
\<close>

definition round_double :: "bool \<Rightarrow> nat \<Rightarrow> nat \<Rightarrow> pyfloat" where
  "round_double sg num den =
     (if num = 0 then Fin sg 0 0
      else
        let k = floor_log 2 num den;
            s = max (k - 52) (- 1074);
            nd = scale2 num den s;
            m = round_half_even (fst nd) (snd nd);
            ms = (if m = 2 ^ 53 then (2 ^ 52, s + 1) else (m, s))
        in if fst ms = 0 then Fin sg 0 0
           else if 971 < snd ms then Inf sg
           else Fin sg (fst ms) (snd ms))"

text \<open>
  \<open>float(s)\<close> on a string, as CPython reads it. The two non-ASCII spaces become a space;
  an underscore must stand between two digits and is dropped; the whitespace float()
  accepts around the literal (space, tab, line feed, vertical tab, form feed, carriage
  return) is stripped; then comes an optional sign and either \<open>inf\<close>, \<open>infinity\<close> or
  \<open>nan\<close> in any case, or digits with an optional point and an optional exponent, with
  at least one digit before the exponent. Anything else raises \<open>ValueError\<close>: \<open>None\<close>.
\<close>

definition float_space :: "char \<Rightarrow> bool" where
  "float_space c = (of_char c \<in> {9, 10, 11, 12, 13, 32 :: nat})"

fun underscores_ok :: "char \<Rightarrow> string \<Rightarrow> bool" where
  "underscores_ok prev [] = (prev \<noteq> CHR ''_'')"
| "underscores_ok prev (c # cs) =
     (if c = CHR ''_'' then is_digit prev \<and> underscores_ok c cs
      else if prev = CHR ''_'' then is_digit c \<and> underscores_ok c cs
      else underscores_ok c cs)"

datatype float_literal = LitNum bool nat int | LitInf bool | LitNaN

definition strip_sign :: "string \<Rightarrow> bool \<times> string" where
  "strip_sign s =
     (case s of
        c # cs \<Rightarrow>
          if c = CHR ''-'' then (True, cs) else if c = CHR ''+'' then (False, cs) else (False, s)
      | [] \<Rightarrow> (False, s))"

definition parse_exponent :: "string \<Rightarrow> int option" where
  "parse_exponent s =
     (case s of
        [] \<Rightarrow> Some 0
      | c # cs \<Rightarrow>
          if c = CHR ''e'' \<or> c = CHR ''E'' then
            (let sd = strip_sign cs
             in if snd sd \<noteq> [] \<and> list_all is_digit (snd sd)
                then Some (if fst sd then - int (read_nat (snd sd)) else int (read_nat (snd sd)))
                else None)
          else None)"

text \<open>\<open>parse_number s = Some (m, e)\<close>: the literal \<open>s\<close> denotes \<open>m * 10 ^ e\<close>.\<close>

definition parse_number :: "string \<Rightarrow> (nat \<times> int) option" where
  "parse_number s =
     (let ip = takeWhile is_digit s;
          r1 = dropWhile is_digit s;
          fp = (case r1 of
                  c # cs \<Rightarrow> if c = CHR ''.'' then takeWhile is_digit cs else []
                | [] \<Rightarrow> []);
          r2 = (case r1 of
                  c # cs \<Rightarrow> if c = CHR ''.'' then dropWhile is_digit cs else r1
                | [] \<Rightarrow> [])
      in if ip = [] \<and> fp = [] then None
         else (case parse_exponent r2 of
                 None \<Rightarrow> None
               | Some e \<Rightarrow> Some (read_nat (ip @ fp), e - int (length fp))))"

definition parse_float_literal :: "string \<Rightarrow> float_literal option" where
  "parse_float_literal s =
     (let s1 = map (\<lambda>c. if of_char c \<in> {133, 160 :: nat} then CHR '' '' else c) s
      in if \<not> underscores_ok (CHR 0x00) s1 then None
         else
           let s2 = filter (\<lambda>c. c \<noteq> CHR ''_'') s1;
               s3 = rev (dropWhile float_space (rev (dropWhile float_space s2)));
               sb = strip_sign s3;
               low = py_lower (snd sb)
           in if low = ''inf'' \<or> low = ''infinity'' then Some (LitInf (fst sb))
              else if low = ''nan'' then Some LitNaN
              else (case parse_number (snd sb) of
                      None \<Rightarrow> None
                    | Some (m, e) \<Rightarrow> Some (LitNum (fst sb) m e)))"

definition py_float :: "string \<Rightarrow> pyfloat option" where
  "py_float s =
     (case parse_float_literal s of
        None \<Rightarrow> None
      | Some LitNaN \<Rightarrow> Some NaN
      | Some (LitInf sg) \<Rightarrow> Some (Inf sg)
      | Some (LitNum sg m e) \<Rightarrow>
          Some (round_double sg (fst (scale10 m 1 (- e))) (snd (scale10 m 1 (- e)))))"

text \<open>
  \<open>int(f)\<close> on a float: the value cut towards zero; an infinity raises
  \<open>OverflowError\<close> and a NaN raises \<open>ValueError\<close> (\<open>None\<close>).
\<close>

definition py_int_of_float :: "pyfloat \<Rightarrow> int option" where
  "py_int_of_float f =
     (case f of
        Fin sg m e \<Rightarrow>
          (let a = (if 0 \<le> e then int m * 2 ^ nat e else int m div 2 ^ nat (- e))
           in Some (if sg then - a else a))
      | Inf sg \<Rightarrow> None
      | NaN \<Rightarrow> None)"

text \<open>
  \<open>repr\<close> of a float (\<open>str\<close> is the same): the shortest digit string that reads back as
  the same double, the nearest such string when there are several. For \<open>n = 1, 2, ..., 17\<close>
  digits the two \<open>n\<close>-digit decimals around the value are tried, the nearer one first.
  \<open>candidate m e k n\<close> is the pair \<open>(c, t)\<close> of an accepted decimal \<open>c * 10 ^ t\<close>.
\<close>

fun strip_trailing_zeros :: "nat \<Rightarrow> int \<Rightarrow> nat \<times> int" where
  "strip_trailing_zeros c t =
     (if c \<noteq> 0 \<and> c mod 10 = 0 then strip_trailing_zeros (c div 10) (t + 1) else (c, t))"

declare strip_trailing_zeros.simps [simp del]

definition reads_back :: "nat \<Rightarrow> int \<Rightarrow> nat \<Rightarrow> int \<Rightarrow> bool" where
  "reads_back m e c t =
     (round_double False (fst (scale10 c 1 (- t))) (snd (scale10 c 1 (- t))) = Fin False m e)"

definition candidate :: "nat \<Rightarrow> int \<Rightarrow> int \<Rightarrow> nat \<Rightarrow> (nat \<times> int) option" where
  "candidate m e k n =
     (let t = k - int n;
          xd = scale2 m 1 (- e);
          yd = scale10 (fst xd) (snd xd) t;
          lo = fst yd div snd yd;
          r = fst yd mod snd yd;
          hi = lo + 1;
          lo_first = (2 * r < snd yd \<or> (2 * r = snd yd \<and> even lo))
      in if lo_first
         then (if reads_back m e lo t then Some (lo, t)
               else if reads_back m e hi t then Some (hi, t) else None)
         else (if reads_back m e hi t then Some (hi, t)
               else if reads_back m e lo t then Some (lo, t) else None))"

fun first_candidate :: "nat \<Rightarrow> int \<Rightarrow> int \<Rightarrow> nat list \<Rightarrow> (nat \<times> int) option" where
  "first_candidate m e k [] = None"
| "first_candidate m e k (n # ns) =
     (case candidate m e k n of Some r \<Rightarrow> Some r | None \<Rightarrow> first_candidate m e k ns)"

definition digit_counts :: "nat list" where
  "digit_counts = [1, 2, 3, 4, 5, 6, 7, 8, 9, 10, 11, 12, 13, 14, 15, 16, 17]"

text \<open>The digits and the position of the decimal point: the value is \<open>0.ds * 10 ^ decpt\<close>.\<close>

definition shortest_digits :: "nat \<Rightarrow> int \<Rightarrow> string \<times> int" where
  "shortest_digits m e =
     (let xd = scale2 m 1 (- e);
          k = floor_log 10 (fst xd) (snd xd) + 1;
          ct = (case first_candidate m e k digit_counts of
                  Some r \<Rightarrow> strip_trailing_zeros (fst r) (snd r)
                | None \<Rightarrow> strip_trailing_zeros m 0);
          ds = show_nat (fst ct)
      in (ds, snd ct + int (length ds)))"

text \<open>
  The layout of \<open>repr\<close>: exponent notation when the decimal point lies more than four
  places left of the digits or more than sixteen places right of their start, with an
  exponent of at least two digits; otherwise positional notation, with \<open>.0\<close> added to a
  whole number.
\<close>

definition format_repr :: "string \<Rightarrow> int \<Rightarrow> string" where
  "format_repr ds decpt =
     (if decpt \<le> - 4 \<or> 16 < decpt then
        (let ex = decpt - 1;
             es = show_nat (nat (abs ex))
         in take 1 ds @ (if 1 < length ds then CHR ''.'' # drop 1 ds else [])
            @ ''e'' @ (if ex < 0 then ''-'' else ''+'')
            @ (if length es < 2 then CHR ''0'' # es else es))
      else if decpt \<le> 0 then ''0.'' @ replicate (nat (- decpt)) (CHR ''0'') @ ds
      else if int (length ds) \<le> decpt
        then ds @ replicate (nat decpt - length ds) (CHR ''0'') @ ''.0''
      else take (nat decpt) ds @ CHR ''.'' # drop (nat decpt) ds)"

definition float_repr :: "pyfloat \<Rightarrow> string" where
  "float_repr f =
     (case f of
        NaN \<Rightarrow> ''nan''
      | Inf sg \<Rightarrow> (if sg then ''-inf'' else ''inf'')
      | Fin sg m e \<Rightarrow>
          (if sg then ''-'' else []) @
          (if m = 0 then ''0.0''
           else format_repr (fst (shortest_digits m e)) (snd (shortest_digits m e))))"

section \<open>Python values\<close>

text \<open>
  The values the program passes around as answers and as decoded JSON: \<open>None\<close>, booleans,
  integers, floats, strings, lists, and dictionaries with string keys (an association
  list in insertion order, each key once).
\<close>

datatype pyval =
    PNone
  | PBool bool
  | PInt int
  | PFloat pyfloat
  | PStr string
  | PList "pyval list"
  | PDict "(string \<times> pyval) list"

text \<open>
  \<open>repr\<close> of a string: single quotes unless the string has a single quote and no double
  quote; the quote and the backslash are escaped, tab, line feed and carriage return are
  written \<open>\t\<close>, \<open>\n\<close>, \<open>\r\<close>, and the other unprintable code points (below 0x20, 0x7F
  to 0xA0, 0xAD) as \<open>\xNN\<close>.
\<close>

definition hex_digit :: "nat \<Rightarrow> char" where
  "hex_digit d = ''0123456789abcdef'' ! d"

definition repr_char :: "char \<Rightarrow> char \<Rightarrow> string" where
  "repr_char q c =
     (let n = (of_char c :: nat)
      in if c = q \<or> c = CHR 0x5C then [CHR 0x5C, c]
         else if n = 9 then [CHR 0x5C, CHR ''t'']
         else if n = 10 then [CHR 0x5C, CHR ''n'']
         else if n = 13 then [CHR 0x5C, CHR ''r'']
         else if n < 32 \<or> (127 \<le> n \<and> n \<le> 160) \<or> n = 173
           then [CHR 0x5C, CHR ''x'', hex_digit (n div 16), hex_digit (n mod 16)]
         else [c])"

definition str_repr :: "string \<Rightarrow> string" where
  "str_repr s =
     (let q = (if CHR 0x27 \<in> set s \<and> CHR 0x22 \<notin> set s then CHR 0x22 else CHR 0x27)
      in q # concat (map (repr_char q) s) @ [q])"

primrec py_repr :: "pyval \<Rightarrow> string" where
  "py_repr PNone = ''None''"
| "py_repr (PBool b) = (if b then ''True'' else ''False'')"
| "py_repr (PInt i) = show_int i"
| "py_repr (PFloat f) = float_repr f"
| "py_repr (PStr s) = str_repr s"
| "py_repr (PList xs) = ''['' @ py_join '', '' (map py_repr xs) @ '']''"
| "py_repr (PDict kvs) =
     ''{'' @ py_join '', '' (map (\<lambda>kv. str_repr (fst kv) @ '': '' @ snd kv)
                                (map (map_prod id py_repr) kvs)) @ ''}''"

text \<open>\<open>str(v)\<close>: a string is itself, every other value is its \<open>repr\<close>.\<close>

definition py_str :: "pyval \<Rightarrow> string" where
  "py_str v = (case v of PStr s \<Rightarrow> s | _ \<Rightarrow> py_repr v)"

text \<open>Truthiness, as \<open>if v\<close>, \<open>while v\<close> and \<open>not v\<close> test it.\<close>

definition py_truthy :: "pyval \<Rightarrow> bool" where
  "py_truthy v =
     (case v of
        PNone \<Rightarrow> False
      | PBool b \<Rightarrow> b
      | PInt i \<Rightarrow> i \<noteq> 0
      | PFloat f \<Rightarrow> (case f of Fin sg m e \<Rightarrow> m \<noteq> 0 | _ \<Rightarrow> True)
      | PStr s \<Rightarrow> s \<noteq> []
      | PList xs \<Rightarrow> xs \<noteq> []
      | PDict kvs \<Rightarrow> kvs \<noteq> [])"

text \<open>\<open>d.get(k)\<close> on a dictionary: \<open>None\<close> for a missing key.\<close>

definition dict_get :: "(string \<times> pyval) list \<Rightarrow> string \<Rightarrow> pyval" where
  "dict_get kvs k = (case map_of kvs k of None \<Rightarrow> PNone | Some v \<Rightarrow> v)"

section \<open>Text cleaning: \<open>DataProcessor._extract_answer\<close>\<close>

text \<open>
  \<open>re.sub(r'```[a-z]*\n', '', response)\<close>. \<open>match_fence s\<close> is what is left of \<open>s\<close>
  behind a match at its head: three backticks, the longest run of letters a to z, and a
  line feed (the run cannot give a letter back to the line feed, so there is one way to
  match).
\<close>

definition is_az :: "char \<Rightarrow> bool" where
  "is_az c = (97 \<le> (of_char c :: nat) \<and> (of_char c :: nat) \<le> 122)"

definition backticks :: string where
  "backticks = [CHR 0x60, CHR 0x60, CHR 0x60]"

definition match_fence :: "string \<Rightarrow> string option" where
  "match_fence s =
     (if prefix backticks s then
        (case dropWhile is_az (drop 3 s) of
           c # rest \<Rightarrow> if c = CHR 0x0A then Some rest else None
         | [] \<Rightarrow> None)
      else None)"

lemma match_fence_shorter: "match_fence s = Some rest \<Longrightarrow> length rest < length s"
proof -
  assume a: "match_fence s = Some rest"
  then obtain c where "dropWhile is_az (drop 3 s) = c # rest"
    by (auto simp: match_fence_def split: if_splits list.splits)
  then have "length (dropWhile is_az (drop 3 s)) = Suc (length rest)" by simp
  moreover have "length (dropWhile is_az (drop 3 s)) \<le> length (drop 3 s)"
    by (rule length_dropWhile_le)
  ultimately show ?thesis by simp
qed

function sub_fences :: "string \<Rightarrow> string" where
  "sub_fences [] = []"
| "sub_fences (c # cs) =
     (case match_fence (c # cs) of
        Some rest \<Rightarrow> sub_fences rest
      | None \<Rightarrow> c # sub_fences cs)"
  by pat_completeness auto
termination
proof (relation "measure length")
  show "wf (measure length)" by simp
next
  fix c :: char and cs rest
  assume "match_fence (c # cs) = Some rest"
  then have "length rest < length (c # cs)" by (rule match_fence_shorter)
  then show "(rest, c # cs) \<in> measure length" by simp
next
  fix c :: char and cs
  show "(cs, c # cs) \<in> measure length" by simp
qed

text \<open>
  \<open>re.sub(r'^(Answer:|Result:|The answer is:?|Final answer:?|ANSWER:)\s*', '', response,
  flags=re.IGNORECASE)\<close>. Without \<open>re.MULTILINE\<close> the pattern matches at the start of the
  string only, so at most one label goes. The alternatives are tried in order, letters
  compared without case; the optional colon is taken when it is there; the whitespace
  behind the label goes with it. The fifth alternative is the first one again.
\<close>

definition drop_colon :: "string \<Rightarrow> string" where
  "drop_colon s = (if prefix '':'' s then drop 1 s else s)"

definition sub_label :: "string \<Rightarrow> string" where
  "sub_label s =
     (if prefix ''answer:'' (py_lower s) then dropWhile py_isspace (drop 7 s)
      else if prefix ''result:'' (py_lower s) then dropWhile py_isspace (drop 7 s)
      else if prefix ''the answer is'' (py_lower s)
        then dropWhile py_isspace (drop_colon (drop 13 s))
      else if prefix ''final answer'' (py_lower s)
        then dropWhile py_isspace (drop_colon (drop 12 s))
      else s)"

text \<open>The response as the two loops see it: stripped, fences and label removed.\<close>

definition clean_response :: "string \<Rightarrow> string" where
  "clean_response llm_response =
     sub_label (py_replace backticks [] (sub_fences (py_strip llm_response)))"

text \<open>\<open>line.replace(',', '').replace(' ', '')\<close>.\<close>

definition clean_num :: "string \<Rightarrow> string" where
  "clean_num line = py_replace '' '' [] (py_replace '','' [] line)"

text \<open>
  The first loop, \<open>for line in reversed(lines)\<close>, on the reversed list: it returns the
  cleaned line at the first line that is non-empty once stripped and that \<open>float\<close>
  accepts once cleaned; \<open>None\<close> when the loop ends without returning.
\<close>

fun numeric_loop :: "string list \<Rightarrow> string option" where
  "numeric_loop [] = None"
| "numeric_loop (line # lines) =
     (if py_strip line \<noteq> [] then
        (case py_float (clean_num (py_strip line)) of
           Some f \<Rightarrow> Some (clean_num (py_strip line))
         | None \<Rightarrow> numeric_loop lines)
      else numeric_loop lines)"

text \<open>The second loop: the first line that is non-empty once stripped, stripped.\<close>

fun nonempty_loop :: "string list \<Rightarrow> string option" where
  "nonempty_loop [] = None"
| "nonempty_loop (line # lines) =
     (if py_strip line \<noteq> [] then Some (py_strip line) else nonempty_loop lines)"

definition extract_answer :: "string \<Rightarrow> string" where
  "extract_answer llm_response =
     (let response = clean_response llm_response;
          lines = py_split_lines response
      in case numeric_loop (rev lines) of
           Some r \<Rightarrow> r
         | None \<Rightarrow>
             (case nonempty_loop (rev lines) of
                Some r \<Rightarrow> r
              | None \<Rightarrow> py_strip response))"

text \<open>
  For the statements about cleaning: a line with its commas and spaces struck out, and
  the lines of a text that are non-empty once stripped, each stripped, in order.
\<close>

definition strike_commas_spaces :: "string \<Rightarrow> string" where
  "strike_commas_spaces l = filter (\<lambda>c. c \<noteq> CHR '','' \<and> c \<noteq> CHR '' '') l"

definition stripped_lines :: "string \<Rightarrow> string list" where
  "stripped_lines s = filter (\<lambda>l. l \<noteq> []) (map py_strip (py_split_lines s))"

section \<open>Answer coercion: \<open>QuizSolver._format_answer\<close>\<close>

text \<open>
  \<open>json.loads\<close> is the standard library's decoder. It is a parameter of the model:
  \<open>json_loads s\<close> is \<open>Some v\<close> when the decoder returns \<open>v\<close> and \<open>None\<close> when it raises.
  \<open>format_type\<close> is whatever the parsed question holds under \<open>answer_format\<close>, so it is
  a value too. Each bare \<open>except\<close> returns what the source returns there.
\<close>

definition format_answer :: "(string \<Rightarrow> pyval option) \<Rightarrow> pyval \<Rightarrow> pyval \<Rightarrow> pyval" where
  "format_answer json_loads answer format_type =
     (if format_type = PStr ''number'' then
        (let answer_str = py_strip (py_replace '' '' [] (py_replace '','' [] (py_str answer)))
         in if CHR ''.'' \<in> set answer_str then
              (case py_float answer_str of
                 None \<Rightarrow> answer
               | Some f \<Rightarrow> PFloat f)
            else
              (case py_float answer_str of
                 None \<Rightarrow> answer
               | Some f \<Rightarrow>
                   (case py_int_of_float f of
                      None \<Rightarrow> answer
                    | Some n \<Rightarrow> PInt n)))
      else if format_type = PStr ''boolean'' then
        PBool (py_lower (py_str answer) \<in> set [''true'', ''1'', ''yes'', ''correct'', ''y''])
      else if format_type = PStr ''object'' then
        (case answer of
           PStr a \<Rightarrow>
             (case json_loads a of
                Some v \<Rightarrow> v
              | None \<Rightarrow> PDict [(''value'', PStr a)])
         | _ \<Rightarrow> answer)
      else PStr (py_strip (py_str answer)))"

text \<open>
  The string form of a value with its commas and spaces struck out, stripped: what the
  number branch hands to \<open>float\<close>.
\<close>

definition number_text :: "pyval \<Rightarrow> string" where
  "number_text v = py_strip (filter (\<lambda>c. c \<noteq> CHR '','' \<and> c \<noteq> CHR '' '') (py_str v))"

section \<open>The regex fallback parser: \<open>QuizSolver._manual_parse\<close>\<close>

text \<open>
  \<open>url_pattern = r'https?://[^\s<>"{}|\\^`\[\]]+'\<close>. \<open>url_char\<close> is the character
  class: anything but whitespace and the eleven listed characters.
\<close>

definition url_char :: "char \<Rightarrow> bool" where
  "url_char c = (\<not> py_isspace c \<and>
     c \<notin> {CHR ''<'', CHR ''>'', CHR 0x22, CHR ''{'', CHR ''}'', CHR ''|'', CHR 0x5C,
           CHR ''^'', CHR 0x60, CHR ''['', CHR '']''})"

text \<open>
  The match of the pattern that starts at the head of \<open>s\<close>, if there is one: the scheme
  (the optional \<open>s\<close> is tried first, and since the next pattern character is a colon there
  is nothing to backtrack into), then the longest non-empty run of class characters.
\<close>

definition match_url :: "string \<Rightarrow> string option" where
  "match_url s =
     (if prefix ''https://'' s \<and> takeWhile url_char (drop 8 s) \<noteq> []
        then Some (''https://'' @ takeWhile url_char (drop 8 s))
      else if prefix ''http://'' s \<and> takeWhile url_char (drop 7 s) \<noteq> []
        then Some (''http://'' @ takeWhile url_char (drop 7 s))
      else None)"

lemma match_url_nonempty: "match_url s = Some u \<Longrightarrow> u \<noteq> []"
  by (auto simp: match_url_def split: if_splits)

text \<open>
  \<open>re.findall(url_pattern, question_text)\<close>: scan from the left; a match is recorded and
  the scan goes on behind it, otherwise the scan moves one character on.
\<close>

function findall_urls :: "string \<Rightarrow> string list" where
  "findall_urls [] = []"
| "findall_urls (c # cs) =
     (case match_url (c # cs) of
        Some u \<Rightarrow> u # findall_urls (drop (length u) (c # cs))
      | None \<Rightarrow> findall_urls cs)"
  by pat_completeness auto
termination
proof (relation "measure length")
  show "wf (measure length)" by simp
next
  fix c :: char and cs u
  assume "match_url (c # cs) = Some u"
  then have "u \<noteq> []" by (rule match_url_nonempty)
  then show "(drop (length u) (c # cs), c # cs) \<in> measure length"
    by (cases u) auto
next
  fix c :: char and cs
  show "(cs, c # cs) \<in> measure length" by simp
qed

text \<open>The two tests of the loop body, on one URL.\<close>

definition is_submit_url :: "string \<Rightarrow> bool" where
  "is_submit_url url =
     (py_contains ''submit'' (py_lower url) \<or> py_contains ''answer'' (py_lower url))"

definition data_exts :: "string list" where
  "data_exts = [''.pdf'', ''.csv'', ''.json'', ''.xlsx'', ''.xls'']"

definition has_data_ext :: "string \<Rightarrow> bool" where
  "has_data_ext url = list_ex (\<lambda>ext. py_contains ext (py_lower url)) data_exts"

text \<open>
  The loop \<open>for url in urls\<close>, on the pair \<open>(data_url, submit_url)\<close> of the two
  variables it assigns; \<open>None\<close> is Python's \<open>None\<close>.
\<close>

fun classify_urls ::
  "string list \<Rightarrow> string option \<times> string option \<Rightarrow> string option \<times> string option" where
  "classify_urls [] (d, s) = (d, s)"
| "classify_urls (url # urls) (d, s) =
     (if is_submit_url url then classify_urls urls (d, Some url)
      else if has_data_ext url then classify_urls urls (Some url, s)
      else classify_urls urls (d, s))"

record parsed_question =
  data_url :: "string option"
  task :: string
  submit_url :: string
  answer_format :: string

definition manual_parse :: "string \<Rightarrow> parsed_question" where
  "manual_parse question_text =
     (let urls = findall_urls question_text;
          ds = classify_urls urls (None, None);
          s = (if (snd ds = None \<or> snd ds = Some []) \<and> urls \<noteq> []
               then Some (last urls) else snd ds)
      in \<lparr> data_url = fst ds,
           task = ''Analyze the data and provide the answer as requested in the question'',
           submit_url = (case s of None \<Rightarrow> [] | Some u \<Rightarrow> u),
           answer_format = ''string'' \<rparr>)"

text \<open>A URL qualifies for the data role when the first test fails and the second holds.\<close>

definition data_candidate :: "string \<Rightarrow> bool" where
  "data_candidate url = (\<not> is_submit_url url \<and> has_data_ext url)"

section \<open>Submission: \<open>QuizSolver.submit_answer\<close>\<close>

text \<open>
  What \<open>requests.post(submit_url, json=payload, timeout=30)\<close> does is the world's
  choice: it raises (connection error, timeout, bad URL, ...; \<open>PostRaises\<close> carries
  \<open>str(e)\<close>), or it returns a response. \<open>requests\<close> raises its \<open>HTTPError\<close> from
  \<open>raise_for_status()\<close> only, so a raising \<open>post\<close> ends in the second handler.
  A response has a status code, a body text, and what \<open>response.json()\<close> gives: the
  decoded value, or the message of the exception it raises on a body that is not JSON.
\<close>

record http_response =
  status_code :: nat
  body_text :: string
  json_body :: "string + pyval"

datatype post_outcome = PostRaises string | PostResponse http_response

text \<open>\<open>response.raise_for_status()\<close> raises for the codes 400 to 599 and for no other.\<close>

definition raises_for_status :: "http_response \<Rightarrow> bool" where
  "raises_for_status r = (400 \<le> status_code r \<and> status_code r < 600)"

text \<open>
  The solver's \<open>email\<close> and \<open>secret\<close>, read from the process environment when it is
  built: an unset variable is \<open>None\<close>.
\<close>

record solver_config =
  email :: "string option"
  secret :: "string option"

definition opt_str :: "string option \<Rightarrow> pyval" where
  "opt_str x = (case x of None \<Rightarrow> PNone | Some s \<Rightarrow> PStr s)"

text \<open>
  \<open>submit_answer\<close>. The \<open>print\<close> of \<open>json.dumps(payload)\<close> before the \<open>try\<close> cannot
  raise on the values of type \<open>pyval\<close>, all of which JSON can encode. The parameter
  \<open>submit_url\<close> (primed here, the name being a field of the parsed question) is whatever
  the parsed question held, so it is a value. The first handler is
  \<open>except requests.exceptions.HTTPError\<close>, the second \<open>except Exception\<close>.
\<close>

definition submit_answer ::
  "(pyval \<Rightarrow> pyval \<Rightarrow> post_outcome) \<Rightarrow> solver_config \<Rightarrow> pyval \<Rightarrow> pyval \<Rightarrow> pyval" where
  "submit_answer post cfg submit_url' answer =
     (let payload = PDict [(''email'', opt_str (email cfg)),
                           (''secret'', opt_str (secret cfg)),
                           (''answer'', answer)]
      in case post submit_url' payload of
           PostRaises msg \<Rightarrow> PDict [(''correct'', PBool False), (''error'', PStr msg)]
         | PostResponse response \<Rightarrow>
             if raises_for_status response then
               PDict [(''correct'', PBool False),
                      (''error'', PStr (''HTTP '' @ show_nat (status_code response))),
                      (''details'', PStr (body_text response))]
             else
               (case json_body response of
                  Inr v \<Rightarrow> v
                | Inl msg \<Rightarrow> PDict [(''correct'', PBool False), (''error'', PStr msg)]))"

section \<open>The chain driver: \<open>QuizSolver.solve_quiz_chain\<close>\<close>

text \<open>
  The world answers the three outside calls of one loop iteration, each indexed by the
  number of the question it belongs to: rendering the page (\<open>fetch_quiz_page\<close>, \<open>None\<close>
  when it raises), solving (\<open>solve_question\<close>, which asks the language model and
  downloads data; \<open>None\<close> when it raises, else the answer and the submission URL), and the
  HTTP POST of the submission.
\<close>

record world =
  fetch_quiz_page :: "nat \<Rightarrow> pyval \<Rightarrow> string option"
  solve_question :: "nat \<Rightarrow> string \<Rightarrow> (pyval \<times> pyval) option"
  requests_post :: "nat \<Rightarrow> pyval \<Rightarrow> pyval \<Rightarrow> post_outcome"

definition max_questions :: nat where
  "max_questions = 20"

text \<open>
  The \<open>try\<close> block of the loop body for question \<open>n\<close> at \<open>current_url\<close>: \<open>Some u\<close>
  when it runs through and assigns \<open>current_url = response.get('url')\<close>, \<open>None\<close> when
  an exception reaches \<open>except Exception\<close> and the loop breaks. \<open>response.get\<close> raises
  \<open>AttributeError\<close> on a response that is not a dictionary.
\<close>

definition question_body :: "world \<Rightarrow> solver_config \<Rightarrow> nat \<Rightarrow> pyval \<Rightarrow> pyval option" where
  "question_body w cfg n current_url =
     (case fetch_quiz_page w n current_url of
        None \<Rightarrow> None
      | Some question_text \<Rightarrow>
          (case solve_question w n question_text of
             None \<Rightarrow> None
           | Some (answer, submit_url') \<Rightarrow>
               (case submit_answer (requests_post w n) cfg submit_url' answer of
                  PDict response \<Rightarrow> Some (dict_get response ''url'')
                | _ \<Rightarrow> None)))"

text \<open>
  \<open>while current_url and question_count < max_questions\<close>, on the two loop variables;
  the result is \<open>question_count\<close> when the loop is left.
\<close>

function chain_loop :: "world \<Rightarrow> solver_config \<Rightarrow> pyval \<Rightarrow> nat \<Rightarrow> nat" where
  "chain_loop w cfg current_url question_count =
     (if py_truthy current_url \<and> question_count < max_questions then
        (case question_body w cfg (question_count + 1) current_url of
           None \<Rightarrow> question_count + 1
         | Some next_url \<Rightarrow> chain_loop w cfg next_url (question_count + 1))
      else question_count)"
  by pat_completeness auto
termination
  by (relation "measure (\<lambda>(w, cfg, current_url, question_count). max_questions - question_count)")
     auto

declare chain_loop.simps [simp del]

definition solve_quiz_chain :: "world \<Rightarrow> solver_config \<Rightarrow> string \<Rightarrow> pyval" where
  "solve_quiz_chain w cfg start_url =
     PDict [(''questions_solved'', PInt (int (chain_loop w cfg (PStr start_url) 0)))]"

section \<open>The HTTP boundary: \<open>solve_quiz\<close> in \<open>app.py\<close>\<close>

record quiz_request =
  req_email :: string
  req_secret :: string
  req_url :: string

text \<open>The three environment variables the program reads; \<open>None\<close> for an unset one.\<close>

record environ =
  SECRET_STRING :: "string option"
  STUDENT_EMAIL :: "string option"
  GEMINI_API_KEY :: "string option"

text \<open>
  \<open>LLMHandler.__init__\<close>: \<open>if not api_key: raise ValueError(...)\<close>; \<open>Inl\<close> carries the
  message of the exception. \<open>QuizSolver.__init__\<close> builds one handler itself and one
  inside its \<open>DataProcessor\<close>, then reads the e-mail and the secret.
\<close>

definition llm_handler_init :: "environ \<Rightarrow> string + unit" where
  "llm_handler_init env =
     (if GEMINI_API_KEY env = None \<or> GEMINI_API_KEY env = Some []
      then Inl ''GEMINI_API_KEY not found in environment variables''
      else Inr ())"

definition quiz_solver_init :: "environ \<Rightarrow> string + solver_config" where
  "quiz_solver_init env =
     (case llm_handler_init env of
        Inl e \<Rightarrow> Inl e
      | Inr u \<Rightarrow>
          (case llm_handler_init env of
             Inl e \<Rightarrow> Inl e
           | Inr u' \<Rightarrow> Inr \<lparr> email = STUDENT_EMAIL env, secret = SECRET_STRING env \<rparr>))"

text \<open>
  What the endpoint does with a request: it raises \<open>HTTPException\<close> (status, detail), it
  returns a body (sent with status 200), or an exception leaves the handler, which the
  framework answers with status 500.
\<close>

datatype endpoint_result =
    HttpException nat string
  | Returned pyval
  | Escaped string

text \<open>
  \<open>solve_quiz\<close>. The solver is built before the \<open>try\<close>; the \<open>try\<close> holds the call of
  \<open>solve_quiz_chain\<close> alone, and that call returns in every case, since the loop catches
  what its body raises: the handler's \<open>except\<close> branch has nothing to catch here.
\<close>

definition solve_quiz :: "world \<Rightarrow> environ \<Rightarrow> quiz_request \<Rightarrow> endpoint_result" where
  "solve_quiz w env request =
     (if Some (req_secret request) \<noteq> SECRET_STRING env then HttpException 403 ''Invalid secret''
      else if Some (req_email request) \<noteq> STUDENT_EMAIL env then HttpException 403 ''Invalid email''
      else
        (case quiz_solver_init env of
           Inl e \<Rightarrow> Escaped e
         | Inr solver \<Rightarrow>
             Returned (PDict [(''status'', PStr ''success''),
                              (''message'', PStr ''Quiz solving completed''),
                              (''result'', solve_quiz_chain w solver (req_url request))])))"

section \<open>Worlds to run the driver in\<close>

text \<open>
  A world in which every page renders, every question is solved, and every submission is
  answered with status 200 and a JSON object that holds a next URL.
\<close>

definition always_next_world :: world where
  "always_next_world =
     \<lparr> fetch_quiz_page = (\<lambda>n u. Some ''What is 1 + 1?''),
       solve_question = (\<lambda>n t. Some (PStr ''2'', PStr ''http://h/submit'')),
       requests_post = (\<lambda>n u payload. PostResponse
          \<lparr> status_code = 200, body_text = [],
            json_body = Inr (PDict [(''correct'', PBool True), (''url'', PStr ''http://h/next'')]) \<rparr>) \<rparr>"

text \<open>The same world, but the POST for question 1 is answered with status 500.\<close>

definition failing_first_world :: world where
  "failing_first_world =
     always_next_world \<lparr> requests_post := (\<lambda>n u payload.
        if n = 1
        then PostResponse \<lparr> status_code = 500, body_text = ''Internal Server Error'',
                             json_body = Inl ''Expecting value: line 1 column 1 (char 0)'' \<rparr>
        else requests_post always_next_world n u payload) \<rparr>"

text \<open>The same world, but rendering the page of question \<open>k\<close> and of every later one raises.\<close>

definition fetch_fails_from :: "nat \<Rightarrow> world" where
  "fetch_fails_from k =
     always_next_world \<lparr> fetch_quiz_page := (\<lambda>n u.
        if k \<le> n then None else fetch_quiz_page always_next_world n u) \<rparr>"

text \<open>The payload of a submission, and whether the POST of a submission failed.\<close>

definition submit_payload :: "solver_config \<Rightarrow> pyval \<Rightarrow> pyval" where
  "submit_payload cfg answer =
     PDict [(''email'', opt_str (email cfg)), (''secret'', opt_str (secret cfg)),
            (''answer'', answer)]"

definition submission_failed :: "post_outcome \<Rightarrow> bool" where
  "submission_failed outcome =
     (case outcome of
        PostRaises msg \<Rightarrow> True
      | PostResponse r \<Rightarrow> raises_for_status r \<or> isl (json_body r))"

section \<open>PDF extraction: \<open>DataProcessor.extract_pdf_data\<close>\<close>

text \<open>
  The two PDF libraries are the world's side. A call of theirs returns or raises:
\<close>

datatype 'a outcome = Raises | Gives 'a

text \<open>
  A table of \<open>pdfplumber\<close> is a list of rows, a row a list of cells, a cell a string or
  \<open>None\<close>. A page answers \<open>extract_text()\<close> with a string or \<open>None\<close>, and
  \<open>extract_tables()\<close> with a list of tables. \<open>plumber_open\<close> is
  \<open>pdfplumber.open(pdf_file)\<close> with its \<open>pages\<close>. For \<open>PyPDF2\<close>, \<open>PdfReader(pdf_file)\<close>
  gives the pages, each answering \<open>extract_text()\<close>.
\<close>

type_synonym cell = "string option"
type_synonym table = "cell list list"

record plumber_page =
  extract_text :: "string option outcome"
  extract_tables :: "table list outcome"

record pdf_libraries =
  plumber_open :: "plumber_page list outcome"
  pypdf_reader :: "string option outcome list outcome"

text \<open>
  \<open>pd.DataFrame(data_rows, columns=headers)\<close> is a parameter, \<open>make_df headers data_rows\<close>:
  \<open>Some df\<close> when the constructor returns the frame \<open>df\<close>, \<open>None\<close> when it raises (the
  table is malformed). An entry of \<open>tables\<close>:
\<close>

record 'df table_entry =
  page :: nat
  table_number :: nat
  data :: 'df

text \<open>\<open>f"=== Page {page_num} ===\n{text}"\<close>.\<close>

definition page_block :: "nat \<Rightarrow> string \<Rightarrow> string" where
  "page_block page_num t = ''=== Page '' @ show_nat page_num @ '' ==='' @ [CHR 0x0A] @ t"

text \<open>
  The inner loop \<open>for table_idx, table in enumerate(page_tables)\<close>, from index
  \<open>table_idx\<close> on, appending to \<open>tables\<close>. The \<open>try\<close> around the frame's construction
  has its own \<open>except\<close>, which prints and goes on with the next table.
\<close>

fun table_loop ::
  "(cell list \<Rightarrow> table \<Rightarrow> 'df option) \<Rightarrow> nat \<Rightarrow> nat \<Rightarrow> table list \<Rightarrow> 'df table_entry list
     \<Rightarrow> 'df table_entry list" where
  "table_loop make_df page_num table_idx [] tables = tables"
| "table_loop make_df page_num table_idx (t # ts) tables =
     (case t of
        [] \<Rightarrow> table_loop make_df page_num (table_idx + 1) ts tables
      | headers # data_rows \<Rightarrow>
          (case make_df headers data_rows of
             Some df \<Rightarrow>
               table_loop make_df page_num (table_idx + 1) ts
                 (tables @ [\<lparr> page = page_num, table_number = table_idx + 1, data = df \<rparr>])
           | None \<Rightarrow> table_loop make_df page_num (table_idx + 1) ts tables))"

text \<open>
  The outer loop \<open>for page_num, page in enumerate(pdf.pages, 1)\<close>, on the two lists
  \<open>text_data\<close> and \<open>tables\<close>. The boolean of the result is \<open>False\<close> when a call of the
  library raised: that ends the \<open>with\<close> block and enters the outer \<open>except\<close>, with both
  lists as they are by then.
\<close>

fun page_loop ::
  "(cell list \<Rightarrow> table \<Rightarrow> 'df option) \<Rightarrow> nat \<Rightarrow> plumber_page list
     \<Rightarrow> string list \<times> 'df table_entry list \<Rightarrow> (string list \<times> 'df table_entry list) \<times> bool" where
  "page_loop make_df page_num [] (text_data, tables) = ((text_data, tables), True)"
| "page_loop make_df page_num (p # ps) (text_data, tables) =
     (case extract_text p of
        Raises \<Rightarrow> ((text_data, tables), False)
      | Gives t \<Rightarrow>
          (let text_data' =
                 (case t of
                    None \<Rightarrow> text_data
                  | Some s \<Rightarrow> if s \<noteq> [] then text_data @ [page_block page_num s] else text_data)
           in case extract_tables p of
                Raises \<Rightarrow> ((text_data', tables), False)
              | Gives page_tables \<Rightarrow>
                  page_loop make_df (page_num + 1) ps
                    (text_data', table_loop make_df page_num 0 page_tables tables)))"

text \<open>The fallback loop over the pages of \<open>PyPDF2\<close>; a raising page ends it.\<close>

fun pypdf_loop :: "nat \<Rightarrow> string option outcome list \<Rightarrow> string list \<Rightarrow> string list" where
  "pypdf_loop page_num [] text_data = text_data"
| "pypdf_loop page_num (p # ps) text_data =
     (case p of
        Raises \<Rightarrow> text_data
      | Gives t \<Rightarrow>
          pypdf_loop (page_num + 1) ps
            (case t of
               None \<Rightarrow> text_data
             | Some s \<Rightarrow> if s \<noteq> [] then text_data @ [page_block page_num s] else text_data))"

record 'df pdf_data =
  pdf_text :: string
  pdf_tables :: "'df table_entry list"

definition extract_pdf_data ::
  "(cell list \<Rightarrow> table \<Rightarrow> 'df option) \<Rightarrow> pdf_libraries \<Rightarrow> 'df pdf_data" where
  "extract_pdf_data make_df libs =
     (let first =
            (case plumber_open libs of
               Raises \<Rightarrow> (([], []), False)
             | Gives pages \<Rightarrow> page_loop make_df 1 pages ([], []));
          text_data =
            (if snd first then fst (fst first)
             else (case pypdf_reader libs of
                     Raises \<Rightarrow> fst (fst first)
                   | Gives pages \<Rightarrow> pypdf_loop 1 pages (fst (fst first))))
      in \<lparr> pdf_text = py_join ([CHR 0x0A, CHR 0x0A]) text_data,
           pdf_tables = snd (fst first) \<rparr>)"


section \<open>PDF extraction, said over the whole document\<close>

text \<open>
  For the statements about extraction. The frame of a table, when it has one: an empty
  table has none, and a table whose frame cannot be built (a malformed one) has none.
\<close>

definition table_frame :: "(cell list \<Rightarrow> table \<Rightarrow> 'df option) \<Rightarrow> table \<Rightarrow> 'df option" where
  "table_frame make_df t = (case t of [] \<Rightarrow> None | headers # data_rows \<Rightarrow> make_df headers data_rows)"

text \<open>
  The entries of one page: one for each of its tables that has a frame, in order, under
  the table's own number on the page (counted from \<open>first\<close> + 1). The entries of a
  document: those of its pages in order, the pages numbered from \<open>page_num\<close>.
\<close>

definition page_entries ::
  "(cell list \<Rightarrow> table \<Rightarrow> 'df option) \<Rightarrow> nat \<Rightarrow> nat \<Rightarrow> table list \<Rightarrow> 'df table_entry list" where
  "page_entries make_df page_num first page_tables =
     List.map_filter
       (\<lambda>(table_idx, t).
          map_option (\<lambda>df. \<lparr> page = page_num, table_number = table_idx + 1, data = df \<rparr>)
            (table_frame make_df t))
       (enumerate first page_tables)"

definition document_entries ::
  "(cell list \<Rightarrow> table \<Rightarrow> 'df option) \<Rightarrow> nat \<Rightarrow> table list list \<Rightarrow> 'df table_entry list" where
  "document_entries make_df page_num tss =
     concat (map (\<lambda>(n, page_tables). page_entries make_df n 0 page_tables) (enumerate page_num tss))"

text \<open>The text blocks of a document: one for each page whose text is not empty.\<close>

definition document_blocks :: "nat \<Rightarrow> string option list \<Rightarrow> string list" where
  "document_blocks page_num texts =
     List.map_filter
       (\<lambda>(n, t). case t of None \<Rightarrow> None
                 | Some s \<Rightarrow> if s \<noteq> [] then Some (page_block n s) else None)
       (enumerate page_num texts)"

text \<open>
  A frame constructor for the examples: it accepts a table whose data rows all have the
  width of the header row, and keeps the two parts.
\<close>

definition example_frame :: "cell list \<Rightarrow> table \<Rightarrow> (cell list \<times> table) option" where
  "example_frame headers data_rows =
     (if list_all (\<lambda>r. length r = length headers) data_rows then Some (headers, data_rows)
      else None)"

text \<open>
  A document for the examples, as \<open>pdfplumber\<close> shows it: the table of page 1 has a data
  row that is narrower than its header row, the table of page 2 is regular.
\<close>

definition intro_page :: plumber_page where
  "intro_page =
     \<lparr> extract_text = Gives (Some ''Intro''),
       extract_tables = Gives [[[Some ''a'', Some ''b''], [Some ''1'']]] \<rparr>"

definition data_page :: plumber_page where
  "data_page =
     \<lparr> extract_text = Gives (Some ''Data''),
       extract_tables = Gives [[[Some ''a'', Some ''b''], [Some ''1'', Some ''2'']]] \<rparr>"

definition two_page_pdf :: pdf_libraries where
  "two_page_pdf = \<lparr> plumber_open = Gives [intro_page, data_page], pypdf_reader = Raises \<rparr>"

section \<open>Facts about the string functions\<close>

text \<open>The definitions that evaluate the string functions on a given text.\<close>

lemmas char_eval = char_of_def bit_iff_odd

lemmas str_eval = py_isspace_def py_lower_def py_lower_char_def py_strip_def char_eval

lemmas url_eval = match_url_def url_char_def is_submit_url_def has_data_ext_def data_exts_def
  str_eval

lemma py_contains_iff: "py_contains sub s \<longleftrightarrow> (\<exists>ps ss. s = ps @ sub @ ss)"
proof (induction s)
  case Nil
  then show ?case by auto
next
  case (Cons c cs)
  show ?case
  proof
    assume "py_contains sub (c # cs)"
    then consider "prefix sub (c # cs)" | "py_contains sub cs" by auto
    then show "\<exists>ps ss. c # cs = ps @ sub @ ss"
    proof cases
      case 1
      then obtain ss where "c # cs = sub @ ss" by (auto simp: prefix_def)
      then have "c # cs = [] @ sub @ ss" by simp
      then show ?thesis by blast
    next
      case 2
      with Cons.IH obtain ps ss where "cs = ps @ sub @ ss" by blast
      then have "c # cs = (c # ps) @ sub @ ss" by simp
      then show ?thesis by blast
    qed
  next
    assume "\<exists>ps ss. c # cs = ps @ sub @ ss"
    then obtain ps ss where eq: "c # cs = ps @ sub @ ss" by blast
    show "py_contains sub (c # cs)"
    proof (cases ps)
      case Nil
      with eq have "prefix sub (c # cs)" by (simp add: prefix_def)
      then show ?thesis by simp
    next
      case (Cons p ps')
      with eq have "cs = ps' @ sub @ ss" by simp
      with Cons.IH have "py_contains sub cs" by blast
      then show ?thesis by simp
    qed
  qed
qed

lemma suffix_py_contains: "suffix sub s \<Longrightarrow> py_contains sub s"
  unfolding py_contains_iff suffix_def by (metis append_Nil2)

lemma py_replace_char: "py_replace [c] [] s = filter (\<lambda>x. x \<noteq> c) s"
  by (induction s) auto

lemma dropWhile_id_iff: "dropWhile P xs = xs \<longleftrightarrow> (xs = [] \<or> \<not> P (hd xs))"
proof (cases xs)
  case Nil
  then show ?thesis by simp
next
  case (Cons a list)
  have "length (dropWhile P list) \<le> length list" by (rule length_dropWhile_le)
  then have "dropWhile P list \<noteq> a # list" by auto
  with Cons show ?thesis by auto
qed

lemma last_dropWhile: "dropWhile P xs \<noteq> [] \<Longrightarrow> last (dropWhile P xs) = last xs"
  by (induction xs) (auto split: if_splits)

lemma py_strip_fixed:
  "s = [] \<or> (\<not> py_isspace (hd s) \<and> \<not> py_isspace (last s)) \<Longrightarrow> py_strip s = s"
proof (cases "s = []")
  case True
  then show ?thesis by (simp add: py_strip_def)
next
  case False
  assume "s = [] \<or> (\<not> py_isspace (hd s) \<and> \<not> py_isspace (last s))"
  with False have h: "\<not> py_isspace (hd s)" and l: "\<not> py_isspace (last s)" by auto
  from h False have 1: "dropWhile py_isspace s = s" by (simp add: dropWhile_id_iff)
  from l False have "\<not> py_isspace (hd (rev s))" by (simp add: hd_rev)
  then have 2: "dropWhile py_isspace (rev s) = rev s" by (simp add: dropWhile_id_iff)
  show ?thesis by (simp add: py_strip_def 1 2)
qed

lemma py_strip_ends:
  assumes "py_strip s \<noteq> []"
  shows "\<not> py_isspace (hd (py_strip s)) \<and> \<not> py_isspace (last (py_strip s))"
proof -
  let ?u = "dropWhile py_isspace s"
  let ?v = "dropWhile py_isspace (rev ?u)"
  from assms have v: "?v \<noteq> []" by (simp add: py_strip_def)
  then have u: "?u \<noteq> []" by (cases "?u = []") simp_all
  have "last (py_strip s) = hd ?v" using v by (simp add: py_strip_def last_rev)
  moreover have "\<not> py_isspace (hd ?v)" using v by (rule hd_dropWhile)
  moreover have "hd (py_strip s) = last ?v" using v by (simp add: py_strip_def hd_rev)
  moreover have "last ?v = last (rev ?u)" using v by (rule last_dropWhile)
  moreover have "last (rev ?u) = hd ?u" using u by (simp add: last_rev)
  moreover have "\<not> py_isspace (hd ?u)" using u by (rule hd_dropWhile)
  ultimately show ?thesis by simp
qed

lemma py_strip_idem: "py_strip (py_strip s) = py_strip s"
  by (rule py_strip_fixed) (use py_strip_ends [of s] in blast)

lemma py_strip_changes:
  "py_strip s \<noteq> s \<Longrightarrow> s \<noteq> [] \<and> (py_isspace (hd s) \<or> py_isspace (last s))"
  using py_strip_fixed [of s] by blast

lemma py_isspace_lower: "py_isspace c \<Longrightarrow> py_lower_char c = c"
  by (auto simp: py_isspace_def py_lower_char_def)

lemma py_lower_member_no_space:
  assumes "py_lower s = m" and "m \<noteq> []"
    and "\<not> py_isspace (hd m)" and "\<not> py_isspace (last m)"
  shows "py_strip s = s"
proof (rule py_strip_fixed)
  from assms(1,2) have ne: "s \<noteq> []" by (auto simp: py_lower_def)
  from assms(1) ne have "hd m = py_lower_char (hd s)" by (auto simp: py_lower_def hd_map)
  with assms(3) have 1: "\<not> py_isspace (hd s)" using py_isspace_lower by fastforce
  from assms(1) ne have "last m = py_lower_char (last s)" by (auto simp: py_lower_def last_map)
  with assms(4) have 2: "\<not> py_isspace (last s)" using py_isspace_lower by fastforce
  from 1 2 show "s = [] \<or> (\<not> py_isspace (hd s) \<and> \<not> py_isspace (last s))" by simp
qed

section \<open>Facts about numbers\<close>

text \<open>The definitions that evaluate \<open>float\<close>, \<open>int\<close> and \<open>repr\<close> on given numbers.\<close>

lemmas num_eval = round_double_def floor_log_def compute_floorlog scale2_def scale10_def
  round_half_even_def Let_def

lemmas float_eval = py_float_def parse_float_literal_def parse_number_def parse_exponent_def
  strip_sign_def float_space_def is_digit_def read_nat_def num_eval str_eval

lemmas digit_eval = show_nat.simps digit_char_def

lemma replace_commas_spaces:
  "py_replace '' '' [] (py_replace '','' [] s) = filter (\<lambda>c. c \<noteq> CHR '','' \<and> c \<noteq> CHR '' '') s"
  by (simp add: py_replace_char conj_commute)

lemma number_text_code:
  "py_strip (py_replace '' '' [] (py_replace '','' [] (py_str v))) = number_text v"
  by (simp add: number_text_def replace_commas_spaces)

lemma py_float_42: "py_float ''42'' = Some (Fin False 5910974510923776 (- 47))"
  by (simp add: float_eval)

lemma py_float_42_5: "py_float ''42.5'' = Some (Fin False 5981343255101440 (- 47))"
  by (simp add: float_eval)

lemma py_float_inf: "py_float ''inf'' = Some (Inf False)"
  by (simp add: float_eval)

lemma py_float_small: "py_float ''0.00001'' = Some (Fin False 5902958103587057 (- 69))"
  by (simp add: float_eval)

lemma py_float_1e_05: "py_float ''1e-05'' = Some (Fin False 5902958103587057 (- 69))"
  by (simp add: float_eval)

lemma float_repr_42_5: "float_repr (Fin False 5981343255101440 (- 47)) = ''42.5''"
proof -
  have k: "floor_log 10 (fst (scale2 5981343255101440 1 (- (- 47))))
      (snd (scale2 5981343255101440 1 (- (- 47)))) + 1 = 2"
    by (simp add: num_eval)
  have c1: "candidate 5981343255101440 (- 47) 2 1 = None"
    by (simp add: candidate_def reads_back_def num_eval)
  have c2: "candidate 5981343255101440 (- 47) 2 2 = None"
    by (simp add: candidate_def reads_back_def num_eval)
  have c3: "candidate 5981343255101440 (- 47) 2 3 = Some (425, - 1)"
    by (simp add: candidate_def reads_back_def num_eval)
  have fc: "first_candidate 5981343255101440 (- 47) 2 digit_counts = Some (425, - 1)"
    by (simp add: digit_counts_def c1 c2 c3 del: One_nat_def)
  have s: "shortest_digits 5981343255101440 (- 47) = (''425'', 2)"
    unfolding shortest_digits_def Let_def k fc
    by (simp add: strip_trailing_zeros.simps digit_eval del: One_nat_def)
  show ?thesis
    by (simp add: float_repr_def s format_repr_def digit_eval)
qed

lemma float_repr_1e_05: "float_repr (Fin False 5902958103587057 (- 69)) = ''1e-05''"
proof -
  have k: "floor_log 10 (fst (scale2 5902958103587057 1 (- (- 69))))
      (snd (scale2 5902958103587057 1 (- (- 69)))) + 1 = - 4"
    by (simp add: num_eval)
  have c: "candidate 5902958103587057 (- 69) (- 4) 1 = Some (1, - 5)"
    by (simp add: candidate_def reads_back_def num_eval)
  have fc: "first_candidate 5902958103587057 (- 69) (- 4) digit_counts = Some (1, - 5)"
    by (simp add: digit_counts_def c del: One_nat_def)
  have s: "shortest_digits 5902958103587057 (- 69) = (''1'', - 4)"
    unfolding shortest_digits_def Let_def k fc
    by (simp add: strip_trailing_zeros.simps digit_eval del: One_nat_def)
  show ?thesis
    by (simp add: float_repr_def s format_repr_def digit_eval)
qed

section \<open>Facts about text cleaning\<close>

lemmas extract_eval = extract_answer_def clean_response_def sub_label_def drop_colon_def
  match_fence_def backticks_def is_az_def clean_num_def

lemma clean_num_filter: "clean_num l = strike_commas_spaces l"
  by (simp add: clean_num_def strike_commas_spaces_def replace_commas_spaces)

lemma numeric_loop_find:
  "numeric_loop ls =
     map_option strike_commas_spaces
       (find (\<lambda>l. py_float (strike_commas_spaces l) \<noteq> None)
          (filter (\<lambda>l. l \<noteq> []) (map py_strip ls)))"
  by (induction ls) (auto simp: clean_num_filter split: option.splits)

lemma nonempty_loop_hd:
  "nonempty_loop ls =
     (case filter (\<lambda>l. l \<noteq> []) (map py_strip ls) of [] \<Rightarrow> None | l # rest \<Rightarrow> Some l)"
  by (induction ls) auto

lemma stripped_lines_rev:
  "filter (\<lambda>l. l \<noteq> []) (map py_strip (rev (py_split_lines s))) = rev (stripped_lines s)"
  by (simp add: stripped_lines_def rev_map rev_filter)

lemma py_strip_Nil_iff: "py_strip s = [] \<longleftrightarrow> (\<forall>c\<in>set s. py_isspace c)"
proof
  assume "py_strip s = []"
  then have a: "\<forall>x\<in>set (dropWhile py_isspace s). py_isspace x"
    by (simp add: py_strip_def dropWhile_eq_Nil_conv)
  have "dropWhile py_isspace s = []"
  proof (rule ccontr)
    assume ne: "dropWhile py_isspace s \<noteq> []"
    then have "\<not> py_isspace (hd (dropWhile py_isspace s))" by (rule hd_dropWhile)
    moreover from ne have "hd (dropWhile py_isspace s) \<in> set (dropWhile py_isspace s)" by simp
    ultimately show False using a by blast
  qed
  then show "\<forall>c\<in>set s. py_isspace c" by (simp add: dropWhile_eq_Nil_conv)
next
  assume "\<forall>c\<in>set s. py_isspace c"
  then show "py_strip s = []" by (auto simp: py_strip_def dest: set_dropWhileD)
qed

lemma py_split_lines_nonempty: "py_split_lines s \<noteq> []"
  by (induction s) (auto split: list.splits)

lemma set_py_split_lines:
  "set s \<subseteq> insert (CHR 0x0A) (\<Union>l\<in>set (py_split_lines s). set l)"
proof (induction s)
  case Nil
  then show ?case by simp
next
  case (Cons c cs)
  show ?case
  proof (cases "c = CHR 0x0A")
    case True
    with Cons show ?thesis by auto
  next
    case False
    obtain l ls where split: "py_split_lines cs = l # ls"
      using py_split_lines_nonempty [of cs] by (cases "py_split_lines cs") auto
    with False have "py_split_lines (c # cs) = (c # l) # ls" by simp
    with Cons split show ?thesis by auto
  qed
qed

lemma all_blank_strip:
  assumes "stripped_lines s = []"
  shows "py_strip s = []"
proof -
  from assms have "\<forall>l\<in>set (py_split_lines s). py_strip l = []"
    by (auto simp: stripped_lines_def filter_empty_conv)
  then have lines: "\<forall>l\<in>set (py_split_lines s). \<forall>c\<in>set l. py_isspace c"
    by (simp add: py_strip_Nil_iff)
  have "py_isspace (CHR 0x0A)" by (simp add: py_isspace_def)
  with lines set_py_split_lines [of s] have "\<forall>c\<in>set s. py_isspace c" by auto
  then show ?thesis by (simp add: py_strip_Nil_iff)
qed

lemma extract_answer_spec:
  "extract_answer raw =
     (case find (\<lambda>l. py_float (strike_commas_spaces l) \<noteq> None)
             (rev (stripped_lines (clean_response raw))) of
        Some l \<Rightarrow> strike_commas_spaces l
      | None \<Rightarrow>
          if stripped_lines (clean_response raw) = [] then []
          else last (stripped_lines (clean_response raw)))"
proof -
  let ?ls = "stripped_lines (clean_response raw)"
  have "nonempty_loop (rev (py_split_lines (clean_response raw))) =
      (if ?ls = [] then None else Some (last ?ls))"
    by (simp add: nonempty_loop_hd stripped_lines_rev hd_rev split: list.splits)
  then show ?thesis
    by (auto simp: extract_answer_def Let_def numeric_loop_find stripped_lines_rev all_blank_strip
        split: option.splits)
qed

section \<open>Facts about the URL loop\<close>

lemma classify_urls_fst:
  "fst (classify_urls urls (d, s)) =
     (if filter data_candidate urls = [] then d else Some (last (filter data_candidate urls)))"
  by (induction urls arbitrary: d s) (auto simp: data_candidate_def)

lemma classify_urls_snd:
  "snd (classify_urls urls (d, s)) =
     (if filter is_submit_url urls = [] then s else Some (last (filter is_submit_url urls)))"
  by (induction urls arbitrary: d s) auto

lemma findall_urls_nonempty: "u \<in> set (findall_urls s) \<Longrightarrow> u \<noteq> []"
  by (induction s rule: findall_urls.induct)
     (auto split: option.splits dest: match_url_nonempty)

lemma data_url_manual_parse:
  "data_url (manual_parse t) =
     (if filter data_candidate (findall_urls t) = [] then None
      else Some (last (filter data_candidate (findall_urls t))))"
  by (simp add: manual_parse_def Let_def classify_urls_fst)

lemma submit_url_manual_parse:
  "submit_url (manual_parse t) =
     (if filter is_submit_url (findall_urls t) \<noteq> [] then last (filter is_submit_url (findall_urls t))
      else if findall_urls t \<noteq> [] then last (findall_urls t)
      else [])"
proof -
  have "last (filter is_submit_url (findall_urls t)) \<noteq> []"
    if "filter is_submit_url (findall_urls t) \<noteq> []"
  proof -
    from that have "last (filter is_submit_url (findall_urls t)) \<in> set (findall_urls t)"
      by (metis filter_is_subset last_in_set subsetD)
    then show ?thesis by (rule findall_urls_nonempty)
  qed
  then show ?thesis
    by (auto simp: manual_parse_def Let_def classify_urls_snd)
qed

lemma last_filter_iff:
  "(filter P xs \<noteq> [] \<and> u = last (filter P xs)) \<longleftrightarrow>
     (\<exists>pre post. xs = pre @ u # post \<and> P u \<and> (\<forall>v\<in>set post. \<not> P v))"
proof
  assume a: "filter P xs \<noteq> [] \<and> u = last (filter P xs)"
  then have "\<exists>x\<in>set xs. P x" by (auto simp: filter_empty_conv)
  then obtain ys x zs where split: "xs = ys @ x # zs" "P x" "\<forall>z\<in>set zs. \<not> P z"
    using split_list_last_prop [of xs P] by blast
  then have "filter P zs = []" by (simp add: filter_empty_conv)
  with split have "filter P xs = filter P ys @ [x]" by simp
  with a have "u = x" by simp
  with split show "\<exists>pre post. xs = pre @ u # post \<and> P u \<and> (\<forall>v\<in>set post. \<not> P v)"
    by blast
next
  assume "\<exists>pre post. xs = pre @ u # post \<and> P u \<and> (\<forall>v\<in>set post. \<not> P v)"
  then obtain pre post where split: "xs = pre @ u # post" "P u" "\<forall>v\<in>set post. \<not> P v"
    by blast
  then have "filter P post = []" by (simp add: filter_empty_conv)
  with split have "filter P xs = filter P pre @ [u]" by simp
  then show "filter P xs \<noteq> [] \<and> u = last (filter P xs)" by simp
qed

lemma has_data_ext_iff:
  "has_data_ext u \<longleftrightarrow> (\<exists>ext\<in>set data_exts. \<exists>ps ss. py_lower u = ps @ ext @ ss)"
  by (simp add: has_data_ext_def list_ex_iff py_contains_iff)

section \<open>Facts about the chain driver\<close>

lemma chain_loop_exit:
  "\<not> (py_truthy u \<and> question_count < max_questions)
   \<Longrightarrow> chain_loop w cfg u question_count = question_count"
  by (subst chain_loop.simps) auto

lemma chain_loop_break:
  "py_truthy u \<Longrightarrow> question_count < max_questions
   \<Longrightarrow> question_body w cfg (question_count + 1) u = None
   \<Longrightarrow> chain_loop w cfg u question_count = question_count + 1"
  by (subst chain_loop.simps) simp

lemma chain_loop_step:
  "py_truthy u \<Longrightarrow> question_count < max_questions
   \<Longrightarrow> question_body w cfg (question_count + 1) u = Some v
   \<Longrightarrow> chain_loop w cfg u question_count = chain_loop w cfg v (question_count + 1)"
  by (subst chain_loop.simps) simp

lemma chain_loop_le:
  "question_count \<le> max_questions \<Longrightarrow> chain_loop w cfg u question_count \<le> max_questions"
proof (induction w cfg u question_count rule: chain_loop.induct)
  case (1 w cfg current_url question_count)
  show ?case
  proof (cases "py_truthy current_url \<and> question_count < max_questions")
    case True
    show ?thesis
    proof (cases "question_body w cfg (question_count + 1) current_url")
      case None
      with True show ?thesis by (simp add: chain_loop_break)
    next
      case (Some next_url)
      with True "1.IH" [of next_url] show ?thesis by (simp add: chain_loop_step)
    qed
  next
    case False
    with "1.prems" show ?thesis by (simp add: chain_loop_exit)
  qed
qed

lemma chain_loop_cong:
  "(\<forall>n u. 1 \<le> n \<and> n \<le> max_questions \<longrightarrow>
       question_body w cfg n u = question_body w' cfg n u)
   \<Longrightarrow> chain_loop w cfg u question_count = chain_loop w' cfg u question_count"
proof (induction w cfg u question_count rule: chain_loop.induct)
  case (1 w cfg current_url question_count)
  show ?case
  proof (cases "py_truthy current_url \<and> question_count < max_questions")
    case True
    then have eq: "question_body w' cfg (question_count + 1) current_url
        = question_body w cfg (question_count + 1) current_url"
      using "1.prems" by simp
    show ?thesis
    proof (cases "question_body w cfg (question_count + 1) current_url")
      case None
      with True eq show ?thesis by (simp add: chain_loop_break)
    next
      case (Some next_url)
      with True "1.IH" [of next_url] "1.prems"
      have "chain_loop w cfg next_url (question_count + 1)
          = chain_loop w' cfg next_url (question_count + 1)" by simp
      with True eq Some show ?thesis by (simp add: chain_loop_step)
    qed
  next
    case False
    then show ?thesis by (simp add: chain_loop_exit)
  qed
qed

lemma chain_loop_full:
  "(\<forall>n u. 1 \<le> n \<and> n \<le> max_questions \<longrightarrow>
       (\<exists>v. question_body w cfg n u = Some v \<and> py_truthy v))
   \<Longrightarrow> py_truthy u \<Longrightarrow> question_count \<le> max_questions
   \<Longrightarrow> chain_loop w cfg u question_count = max_questions"
proof (induction w cfg u question_count rule: chain_loop.induct)
  case (1 w cfg current_url question_count)
  show ?case
  proof (cases "question_count < max_questions")
    case True
    then have "1 \<le> question_count + 1 \<and> question_count + 1 \<le> max_questions" by simp
    with "1.prems"(1) obtain v
      where v: "question_body w cfg (question_count + 1) current_url = Some v" "py_truthy v"
      by blast
    with True "1.prems" "1.IH" [of v]
    have "chain_loop w cfg v (question_count + 1) = max_questions" by simp
    with True v "1.prems"(2) show ?thesis by (simp add: chain_loop_step)
  next
    case False
    with "1.prems"(3) show ?thesis by (simp add: chain_loop_exit)
  qed
qed

lemma chain_loop_last:
  "py_truthy u \<Longrightarrow> question_count < max_questions
   \<Longrightarrow> question_body w cfg (question_count + 1) u = Some v \<Longrightarrow> \<not> py_truthy v
   \<Longrightarrow> chain_loop w cfg u question_count = question_count + 1"
  by (simp add: chain_loop_step chain_loop_exit)

lemma question_body_always_next:
  "question_body always_next_world cfg n u = Some (PStr ''http://h/next'')"
  by (simp add: question_body_def always_next_world_def submit_answer_def raises_for_status_def
      dict_get_def)


lemma solve_quiz_chain_always_next:
  "solve_quiz_chain always_next_world cfg ''http://h/q1'' = PDict [(''questions_solved'', PInt 20)]"
proof -
  have "chain_loop always_next_world cfg (PStr ''http://h/q1'') 0 = max_questions"
    by (rule chain_loop_full) (simp_all add: question_body_always_next py_truthy_def)
  then show ?thesis by (simp add: solve_quiz_chain_def max_questions_def)
qed

lemma question_body_fetch_fails:
  "question_body (fetch_fails_from k) cfg n u =
     (if k \<le> n then None else Some (PStr ''http://h/next''))"
  by (simp add: question_body_def fetch_fails_from_def always_next_world_def submit_answer_def
      raises_for_status_def dict_get_def)
section \<open>Facts about PDF extraction\<close>

lemma table_loop_entries:
  "table_loop make_df page_num table_idx ts tables
     = tables @ page_entries make_df page_num table_idx ts"
proof (induction ts arbitrary: table_idx tables)
  case Nil
  show ?case by (simp add: page_entries_def)
next
  case (Cons t ts)
  have step: "page_entries make_df page_num table_idx (t # ts) =
      (case table_frame make_df t of
         None \<Rightarrow> page_entries make_df page_num (table_idx + 1) ts
       | Some df \<Rightarrow> \<lparr> page = page_num, table_number = table_idx + 1, data = df \<rparr>
                    # page_entries make_df page_num (table_idx + 1) ts)"
    by (simp add: page_entries_def split: option.splits)
  show ?case
    by (simp add: step Cons.IH table_frame_def split: list.splits option.splits)
qed

lemma document_entries_Cons:
  "document_entries make_df page_num (ts # tss)
     = page_entries make_df page_num 0 ts @ document_entries make_df (page_num + 1) tss"
  by (simp add: document_entries_def)

lemma document_blocks_Cons:
  "document_blocks page_num (t # texts)
     = (case t of None \<Rightarrow> []
        | Some s \<Rightarrow> if s \<noteq> [] then [page_block page_num s] else [])
       @ document_blocks (page_num + 1) texts"
  by (simp add: document_blocks_def split: option.splits)

lemma page_loop_document:
  "map extract_text ps = map Gives texts \<Longrightarrow> map extract_tables ps = map Gives tss
   \<Longrightarrow> page_loop make_df page_num ps (text_data, tables)
       = ((text_data @ document_blocks page_num texts,
           tables @ document_entries make_df page_num tss), True)"
proof (induction ps arbitrary: page_num texts tss text_data tables)
  case Nil
  then show ?case by (simp add: document_blocks_def document_entries_def)
next
  case (Cons p ps)
  from Cons.prems(1) obtain t texts' where t: "texts = t # texts'" "extract_text p = Gives t"
    "map extract_text ps = map Gives texts'" by (cases texts) auto
  from Cons.prems(2) obtain ts tss' where ts: "tss = ts # tss'" "extract_tables p = Gives ts"
    "map extract_tables ps = map Gives tss'" by (cases tss) auto
  show ?case
    by (simp add: t ts Cons.IH [OF t(3) ts(3)] table_loop_entries document_entries_Cons
        document_blocks_Cons split: option.splits)
qed

lemma in_set_map_filter:
  "y \<in> set (List.map_filter f xs) \<longleftrightarrow> (\<exists>x \<in> set xs. f x = Some y)"
  by (induction xs) (auto split: option.splits)

lemma set_page_entries:
  "set (page_entries make_df page_num 0 ts) =
     {\<lparr> page = page_num, table_number = j + 1, data = df \<rparr> | j df.
        j < length ts \<and> table_frame make_df (ts ! j) = Some df}"
proof -
  have "\<And>e. e \<in> set (page_entries make_df page_num 0 ts) \<longleftrightarrow>
      (\<exists>j df. j < length ts \<and> table_frame make_df (ts ! j) = Some df
          \<and> e = \<lparr> page = page_num, table_number = j + 1, data = df \<rparr>)"
  proof -
    fix e
    have "e \<in> set (page_entries make_df page_num 0 ts) \<longleftrightarrow>
        (\<exists>p \<in> set (enumerate 0 ts). map_option
            (\<lambda>df. \<lparr> page = page_num, table_number = fst p + 1, data = df \<rparr>)
            (table_frame make_df (snd p)) = Some e)"
      by (simp add: page_entries_def in_set_map_filter split_beta)
    also have "\<dots> \<longleftrightarrow> (\<exists>j df. j < length ts \<and> table_frame make_df (ts ! j) = Some df
          \<and> e = \<lparr> page = page_num, table_number = j + 1, data = df \<rparr>)"
      by (auto simp: in_set_enumerate_eq Bex_def)
    finally show "e \<in> set (page_entries make_df page_num 0 ts) \<longleftrightarrow>
      (\<exists>j df. j < length ts \<and> table_frame make_df (ts ! j) = Some df
          \<and> e = \<lparr> page = page_num, table_number = j + 1, data = df \<rparr>)" .
  qed
  then show ?thesis by blast
qed

lemma set_document_entries:
  "set (document_entries make_df 1 tss) =
     {\<lparr> page = i + 1, table_number = j + 1, data = df \<rparr> | i j df.
        i < length tss \<and> j < length (tss ! i) \<and> table_frame make_df (tss ! i ! j) = Some df}"
proof -
  have "\<And>e. e \<in> set (document_entries make_df 1 tss) \<longleftrightarrow>
      (\<exists>i j df. i < length tss \<and> j < length (tss ! i)
          \<and> table_frame make_df (tss ! i ! j) = Some df
          \<and> e = \<lparr> page = i + 1, table_number = j + 1, data = df \<rparr>)"
  proof -
    fix e
    have "e \<in> set (document_entries make_df 1 tss) \<longleftrightarrow>
        (\<exists>p \<in> set (enumerate 1 tss). e \<in> set (page_entries make_df (fst p) 0 (snd p)))"
      by (auto simp: document_entries_def split_beta)
    also have "\<dots> \<longleftrightarrow> (\<exists>i. i < length tss \<and> e \<in> set (page_entries make_df (i + 1) 0 (tss ! i)))"
    proof
      assume "\<exists>p \<in> set (enumerate 1 tss). e \<in> set (page_entries make_df (fst p) 0 (snd p))"
      then obtain p where p: "p \<in> set (enumerate 1 tss)"
        "e \<in> set (page_entries make_df (fst p) 0 (snd p))" by blast
      from p(1) have "1 \<le> fst p" "fst p - 1 < length tss" "tss ! (fst p - 1) = snd p"
        by (auto simp: in_set_enumerate_eq)
      with p(2) show "\<exists>i. i < length tss \<and> e \<in> set (page_entries make_df (i + 1) 0 (tss ! i))"
        by (intro exI [of _ "fst p - 1"]) simp
    next
      assume "\<exists>i. i < length tss \<and> e \<in> set (page_entries make_df (i + 1) 0 (tss ! i))"
      then obtain i where i: "i < length tss"
        "e \<in> set (page_entries make_df (i + 1) 0 (tss ! i))" by blast
      then have "(i + 1, tss ! i) \<in> set (enumerate 1 tss)"
        by (simp add: in_set_enumerate_eq)
      with i(2) show "\<exists>p \<in> set (enumerate 1 tss). e \<in> set (page_entries make_df (fst p) 0 (snd p))"
        by force
    qed
    also have "\<dots> \<longleftrightarrow> (\<exists>i j df. i < length tss \<and> j < length (tss ! i)
          \<and> table_frame make_df (tss ! i ! j) = Some df
          \<and> e = \<lparr> page = i + 1, table_number = j + 1, data = df \<rparr>)"
      by (auto simp: set_page_entries)
    finally show "e \<in> set (document_entries make_df 1 tss) \<longleftrightarrow>
      (\<exists>i j df. i < length tss \<and> j < length (tss ! i)
          \<and> table_frame make_df (tss ! i ! j) = Some df
          \<and> e = \<lparr> page = i + 1, table_number = j + 1, data = df \<rparr>)" .
  qed
  then show ?thesis by blast
qed

lemma extract_pdf_data_document:
  "plumber_open libs = Gives pages \<Longrightarrow> map extract_text pages = map Gives texts
   \<Longrightarrow> map extract_tables pages = map Gives tss
   \<Longrightarrow> extract_pdf_data make_df libs =
        \<lparr> pdf_text = py_join [CHR 0x0A, CHR 0x0A] (document_blocks 1 texts),
          pdf_tables = document_entries make_df 1 tss \<rparr>"
  using page_loop_document [of pages texts tss make_df 1 "[]" "[]"]
  by (simp add: extract_pdf_data_def)

section \<open>Claims about the fallback parser\<close>

text \<open>
  Claim C3, as amended. In \<open>_manual_parse\<close> the data-source test is
  \<open>any(ext in url.lower() for ext in [...])\<close>: containment, not a test of the end of the
  URL. The parsed \<open>data_url\<close> is \<open>u\<close> exactly when \<open>u\<close> is the last URL of the text that
  fails the submission test and whose lower-cased form contains one of the five extensions
  anywhere; a URL that ends in an extension contains it, so it passes the data test.
\<close>

theorem manual_parse_data_url_contains:
  "(data_url (manual_parse t) = Some u \<longleftrightarrow>
      (\<exists>pre post. findall_urls t = pre @ u # post
         \<and> \<not> is_submit_url u
         \<and> (\<exists>ext\<in>set data_exts. \<exists>ps ss. py_lower u = ps @ ext @ ss)
         \<and> (\<forall>v\<in>set post. is_submit_url v \<or> \<not> has_data_ext v)))
   \<and> ((\<exists>ext\<in>set data_exts. suffix ext (py_lower u)) \<longrightarrow> has_data_ext u)"
proof
  have "data_url (manual_parse t) = Some u \<longleftrightarrow>
      (filter data_candidate (findall_urls t) \<noteq> []
        \<and> u = last (filter data_candidate (findall_urls t)))"
    by (auto simp: data_url_manual_parse)
  also have "\<dots> \<longleftrightarrow> (\<exists>pre post. findall_urls t = pre @ u # post
         \<and> data_candidate u \<and> (\<forall>v\<in>set post. \<not> data_candidate v))"
    by (rule last_filter_iff)
  finally show "data_url (manual_parse t) = Some u \<longleftrightarrow>
      (\<exists>pre post. findall_urls t = pre @ u # post
         \<and> \<not> is_submit_url u
         \<and> (\<exists>ext\<in>set data_exts. \<exists>ps ss. py_lower u = ps @ ext @ ss)
         \<and> (\<forall>v\<in>set post. is_submit_url v \<or> \<not> has_data_ext v))"
    by (simp add: data_candidate_def has_data_ext_iff)
next
  show "(\<exists>ext\<in>set data_exts. suffix ext (py_lower u)) \<longrightarrow> has_data_ext u"
    by (auto simp: has_data_ext_def list_ex_iff intro: suffix_py_contains)
qed

text \<open>
  A text with one URL that carries \<open>.csv\<close> before its query string: it is the parsed
  \<open>data_url\<close>, as the theorem says.
\<close>

theorem manual_parse_data_url_contains_witness:
  "data_url (manual_parse ''get http://h/d.csv?x=1 now'') = Some ''http://h/d.csv?x=1''"
proof -
  have urls: "findall_urls ''get http://h/d.csv?x=1 now'' = [] @ ''http://h/d.csv?x=1'' # []"
    by (simp add: url_eval)
  have a: "\<not> is_submit_url ''http://h/d.csv?x=1''" by (simp add: url_eval)
  have "py_lower ''http://h/d.csv?x=1'' = ''http://h/d'' @ ''.csv'' @ ''?x=1''"
    by (simp add: str_eval)
  moreover have "''.csv'' \<in> set data_exts" by (simp add: data_exts_def)
  ultimately have b: "\<exists>ext\<in>set data_exts. \<exists>ps ss.
      py_lower ''http://h/d.csv?x=1'' = ps @ ext @ ss" by blast
  have "\<exists>pre post. findall_urls ''get http://h/d.csv?x=1 now'' = pre @ ''http://h/d.csv?x=1'' # post
         \<and> \<not> is_submit_url ''http://h/d.csv?x=1''
         \<and> (\<exists>ext\<in>set data_exts. \<exists>ps ss. py_lower ''http://h/d.csv?x=1'' = ps @ ext @ ss)
         \<and> (\<forall>v\<in>set post. is_submit_url v \<or> \<not> has_data_ext v)"
    using urls a b by (metis empty_iff list.set(1))
  then show ?thesis
    using manual_parse_data_url_contains [of "''get http://h/d.csv?x=1 now''" "''http://h/d.csv?x=1''"]
    by blast
qed

text \<open>
  The claim as stated fails: the only URL of this text has \<open>.csv\<close> in the middle and ends
  in none of the five extensions, and it is the parsed \<open>data_url\<close>.
\<close>

theorem manual_parse_data_url_contains_counterexample:
  "data_url (manual_parse ''get http://h/d.csv?x=1 now'') = Some ''http://h/d.csv?x=1''
   \<and> \<not> list_ex (\<lambda>ext. suffix ext (py_lower ''http://h/d.csv?x=1'')) data_exts"
  by (simp add: manual_parse_def url_eval suffix_def)

text \<open>
  Claim C9. The submission test comes first in the loop body, so a URL that passes it is
  assigned to \<open>submit_url\<close> whatever the data test says, it leaves \<open>data_url\<close> as it was,
  and it is never the parsed \<open>data_url\<close>. Each role goes to the last URL, in the order of
  the text, that qualifies for it.
\<close>

theorem manual_parse_submit_priority_last_wins:
  "(is_submit_url u \<and> has_data_ext u \<longrightarrow>
      classify_urls (u # us) (d, s) = classify_urls us (d, Some u)
      \<and> data_url (manual_parse t) \<noteq> Some u)
   \<and> (filter is_submit_url (findall_urls t) \<noteq> [] \<longrightarrow>
        submit_url (manual_parse t) = last (filter is_submit_url (findall_urls t)))
   \<and> (filter (\<lambda>v. \<not> is_submit_url v \<and> has_data_ext v) (findall_urls t) \<noteq> [] \<longrightarrow>
        data_url (manual_parse t) =
          Some (last (filter (\<lambda>v. \<not> is_submit_url v \<and> has_data_ext v) (findall_urls t))))"
proof (intro conjI impI)
  assume u: "is_submit_url u \<and> has_data_ext u"
  then show "classify_urls (u # us) (d, s) = classify_urls us (d, Some u)" by simp
  show "data_url (manual_parse t) \<noteq> Some u"
  proof
    assume "data_url (manual_parse t) = Some u"
    then have "filter data_candidate (findall_urls t) \<noteq> []"
      and "u = last (filter data_candidate (findall_urls t))"
      by (auto simp: data_url_manual_parse split: if_splits)
    then have "u \<in> set (filter data_candidate (findall_urls t))"
      by (metis last_in_set)
    then have "\<not> is_submit_url u" by (simp add: data_candidate_def)
    with u show False by simp
  qed
next
  assume "filter is_submit_url (findall_urls t) \<noteq> []"
  then show "submit_url (manual_parse t) = last (filter is_submit_url (findall_urls t))"
    by (simp add: submit_url_manual_parse)
next
  assume "filter (\<lambda>v. \<not> is_submit_url v \<and> has_data_ext v) (findall_urls t) \<noteq> []"
  then show "data_url (manual_parse t) =
      Some (last (filter (\<lambda>v. \<not> is_submit_url v \<and> has_data_ext v) (findall_urls t)))"
    using data_url_manual_parse [of t] by (simp add: data_candidate_def [abs_def])
qed

text \<open>
  A text with four URLs: two data files, then a URL that passes both tests, then a second
  submission URL. The parse takes the second data file and the last submission URL.
\<close>

theorem manual_parse_submit_priority_last_wins_witness:
  "is_submit_url ''http://h/submit.json'' \<and> has_data_ext ''http://h/submit.json''
   \<and> classify_urls [''http://h/submit.json''] (None, None) = (None, Some ''http://h/submit.json'')
   \<and> data_url (manual_parse
        ''read http://h/a.csv and http://h/b.pdf post http://h/submit.json or http://h/answer'')
       = Some ''http://h/b.pdf''
   \<and> submit_url (manual_parse
        ''read http://h/a.csv and http://h/b.pdf post http://h/submit.json or http://h/answer'')
       = ''http://h/answer''"
proof -
  let ?t = "''read http://h/a.csv and http://h/b.pdf post http://h/submit.json or http://h/answer''"
  let ?u = "''http://h/submit.json''"
  have h1: "is_submit_url ?u \<and> has_data_ext ?u" by (simp add: url_eval)
  have h2: "filter is_submit_url (findall_urls ?t) = [''http://h/submit.json'', ''http://h/answer'']"
    by (simp add: url_eval)
  have h3: "filter (\<lambda>v. \<not> is_submit_url v \<and> has_data_ext v) (findall_urls ?t)
      = [''http://h/a.csv'', ''http://h/b.pdf'']"
    by (simp add: url_eval)
  note inst = manual_parse_submit_priority_last_wins [of ?u "[]" None None ?t]
  from inst h1 have c1: "classify_urls [?u] (None, None) = (None, Some ?u)" by simp
  from inst h2 have c2: "submit_url (manual_parse ?t) = ''http://h/answer''" by simp
  from inst h3 have c3: "data_url (manual_parse ?t) = Some ''http://h/b.pdf''" by simp
  from h1 c1 c2 c3 show ?thesis by blast
qed

section \<open>Claims about answer coercion\<close>

text \<open>
  Claim C4, as amended. The boolean branch is \<open>str(answer).lower() in [...]\<close>: the
  string form is lower-cased and not trimmed.
\<close>

theorem format_answer_boolean_untrimmed:
  "format_answer json_loads v (PStr ''boolean'') =
     PBool (py_lower (py_str v) \<in> {''true'', ''1'', ''yes'', ''correct'', ''y''})
   \<and> format_answer json_loads (PStr ''Yes'') (PStr ''boolean'') = PBool True
   \<and> format_answer json_loads (PStr ''no'') (PStr ''boolean'') = PBool False
   \<and> (py_strip (py_str v) \<noteq> py_str v \<longrightarrow>
        format_answer json_loads v (PStr ''boolean'') = PBool False)"
proof (intro conjI impI)
  show "format_answer json_loads v (PStr ''boolean'') =
     PBool (py_lower (py_str v) \<in> {''true'', ''1'', ''yes'', ''correct'', ''y''})"
    by (simp add: format_answer_def)
  show "format_answer json_loads (PStr ''Yes'') (PStr ''boolean'') = PBool True"
    by (simp add: format_answer_def py_str_def str_eval)
  show "format_answer json_loads (PStr ''no'') (PStr ''boolean'') = PBool False"
    by (simp add: format_answer_def py_str_def str_eval)
next
  assume changed: "py_strip (py_str v) \<noteq> py_str v"
  have "py_lower (py_str v) \<notin> {''true'', ''1'', ''yes'', ''correct'', ''y''}"
  proof
    assume "py_lower (py_str v) \<in> {''true'', ''1'', ''yes'', ''correct'', ''y''}"
    then have "py_strip (py_str v) = py_str v"
      by (auto intro!: py_lower_member_no_space [of "py_str v"] simp: py_isspace_def)
    with changed show False by simp
  qed
  then show "format_answer json_loads v (PStr ''boolean'') = PBool False"
    by (simp add: format_answer_def)
qed

text \<open>The string \<open>yes\<close> between two spaces: stripping changes it, and it coerces to false.\<close>

theorem format_answer_boolean_untrimmed_witness:
  "py_strip (py_str (PStr '' yes '')) \<noteq> py_str (PStr '' yes '')
   \<and> format_answer (\<lambda>s. None) (PStr '' yes '') (PStr ''boolean'') = PBool False"
proof -
  have h: "py_strip (py_str (PStr '' yes '')) \<noteq> py_str (PStr '' yes '')"
    by (simp add: py_str_def str_eval)
  with format_answer_boolean_untrimmed [of "\<lambda>s. None" "PStr '' yes ''"] show ?thesis
    by blast
qed

text \<open>
  The claim as stated fails: the lower-cased trimmed string form of this value is
  \<open>yes\<close>, a member of the set, and the value coerces to false.
\<close>

theorem format_answer_boolean_untrimmed_counterexample:
  "py_lower (py_strip (py_str (PStr '' yes ''))) = ''yes''
   \<and> format_answer (\<lambda>s. None) (PStr '' yes '') (PStr ''boolean'') = PBool False"
  by (simp add: format_answer_def py_str_def str_eval)

text \<open>
  Claim C6, as amended. The number branch strikes commas and spaces out of the string
  form and hands the rest to \<open>float\<close>. When \<open>float\<close> raises, the value comes back as it
  was. When the text has a decimal point the float is returned. When it has none the
  float goes through \<open>int\<close>: a finite float gives its integer part, and an infinity or a
  NaN makes \<open>int\<close> raise inside the same \<open>try\<close>, so the value comes back as it was.
\<close>

theorem format_answer_number_cases:
  "(py_float (number_text v) = None \<longrightarrow> format_answer json_loads v (PStr ''number'') = v)
   \<and> (py_float (number_text v) = Some f \<and> CHR ''.'' \<in> set (number_text v) \<longrightarrow>
        format_answer json_loads v (PStr ''number'') = PFloat f)
   \<and> (py_float (number_text v) = Some (Fin sg m e) \<and> CHR ''.'' \<notin> set (number_text v) \<longrightarrow>
        (\<exists>n. py_int_of_float (Fin sg m e) = Some n
             \<and> format_answer json_loads v (PStr ''number'') = PInt n))
   \<and> (py_float (number_text v) = Some f \<and> f \<in> {Inf False, Inf True, NaN}
        \<and> CHR ''.'' \<notin> set (number_text v) \<longrightarrow>
        format_answer json_loads v (PStr ''number'') = v)
   \<and> format_answer json_loads (PStr ''42'') (PStr ''number'') = PInt 42
   \<and> format_answer json_loads (PStr ''42.5'') (PStr ''number'')
       = PFloat (Fin False 5981343255101440 (- 47))
   \<and> float_repr (Fin False 5981343255101440 (- 47)) = ''42.5''"
proof -
  note nt = number_text_code
  have n42: "number_text (PStr ''42'') = ''42''"
    by (simp add: number_text_def py_str_def str_eval)
  have n425: "number_text (PStr ''42.5'') = ''42.5''"
    by (simp add: number_text_def py_str_def str_eval)
  have 1: "py_float (number_text v) = None \<longrightarrow> format_answer json_loads v (PStr ''number'') = v"
    by (simp add: format_answer_def nt Let_def)
  have 2: "py_float (number_text v) = Some f \<and> CHR ''.'' \<in> set (number_text v) \<longrightarrow>
        format_answer json_loads v (PStr ''number'') = PFloat f"
    by (simp add: format_answer_def nt Let_def)
  have 3: "py_float (number_text v) = Some (Fin sg m e) \<and> CHR ''.'' \<notin> set (number_text v) \<longrightarrow>
        (\<exists>n. py_int_of_float (Fin sg m e) = Some n
             \<and> format_answer json_loads v (PStr ''number'') = PInt n)"
    by (simp add: format_answer_def nt py_int_of_float_def Let_def)
  have 4: "py_float (number_text v) = Some f \<and> f \<in> {Inf False, Inf True, NaN}
        \<and> CHR ''.'' \<notin> set (number_text v) \<longrightarrow>
        format_answer json_loads v (PStr ''number'') = v"
    by (auto simp: format_answer_def nt py_int_of_float_def Let_def)
  have 5: "format_answer json_loads (PStr ''42'') (PStr ''number'') = PInt 42"
    by (simp add: format_answer_def number_text_code n42 py_float_42 py_int_of_float_def Let_def)
  have 6: "format_answer json_loads (PStr ''42.5'') (PStr ''number'')
       = PFloat (Fin False 5981343255101440 (- 47))"
    by (simp add: format_answer_def number_text_code n425 py_float_42_5 Let_def)
  from 1 2 3 4 5 6 float_repr_42_5 show ?thesis by blast
qed

text \<open>
  The four cases at four inputs: \<open>abc\<close> is no float; \<open>1,234.5\<close> has a point;
  \<open>42\<close> has none and is finite; \<open>nan\<close> has none and has no integer part.
\<close>

theorem format_answer_number_cases_witness:
  "format_answer (\<lambda>s. None) (PStr ''abc'') (PStr ''number'') = PStr ''abc''
   \<and> format_answer (\<lambda>s. None) (PStr ''1,234.5'') (PStr ''number'')
       = PFloat (Fin False 5429388417957888 (- 42))
   \<and> format_answer (\<lambda>s. None) (PStr ''42'') (PStr ''number'') = PInt 42
   \<and> format_answer (\<lambda>s. None) (PStr ''nan'') (PStr ''number'') = PStr ''nan''"
proof -
  have a: "py_float (number_text (PStr ''abc'')) = None"
    by (simp add: number_text_def py_str_def float_eval)
  have b: "py_float (number_text (PStr ''1,234.5'')) = Some (Fin False 5429388417957888 (- 42))
      \<and> CHR ''.'' \<in> set (number_text (PStr ''1,234.5''))"
    by (simp add: number_text_def py_str_def float_eval)
  have c: "py_float (number_text (PStr ''42'')) = Some (Fin False 5910974510923776 (- 47))
      \<and> CHR ''.'' \<notin> set (number_text (PStr ''42''))"
    by (simp add: number_text_def py_str_def float_eval)
  have d: "py_float (number_text (PStr ''nan'')) = Some NaN \<and> NaN \<in> {Inf False, Inf True, NaN}
      \<and> CHR ''.'' \<notin> set (number_text (PStr ''nan''))"
    by (simp add: number_text_def py_str_def float_eval)
  have i: "py_int_of_float (Fin False 5910974510923776 (- 47)) = Some 42"
    by (simp add: py_int_of_float_def)
  from a format_answer_number_cases [of "PStr ''abc''" "\<lambda>s. None"]
  have 1: "format_answer (\<lambda>s. None) (PStr ''abc'') (PStr ''number'') = PStr ''abc''" by blast
  from b format_answer_number_cases
    [of "PStr ''1,234.5''" "\<lambda>s. None" "Fin False 5429388417957888 (- 42)"]
  have 2: "format_answer (\<lambda>s. None) (PStr ''1,234.5'') (PStr ''number'')
       = PFloat (Fin False 5429388417957888 (- 42))" by blast
  from c format_answer_number_cases
    [of "PStr ''42''" "\<lambda>s. None" _ False 5910974510923776 "- 47"]
  have "\<exists>n. py_int_of_float (Fin False 5910974510923776 (- 47)) = Some n
      \<and> format_answer (\<lambda>s. None) (PStr ''42'') (PStr ''number'') = PInt n" by blast
  with i have 3: "format_answer (\<lambda>s. None) (PStr ''42'') (PStr ''number'') = PInt 42" by auto
  from d format_answer_number_cases [of "PStr ''nan''" "\<lambda>s. None" NaN]
  have 4: "format_answer (\<lambda>s. None) (PStr ''nan'') (PStr ''number'') = PStr ''nan''" by blast
  from 1 2 3 4 show ?thesis by blast
qed

text \<open>
  The claim as stated fails: \<open>float\<close> accepts \<open>inf\<close>, which has no decimal point, and
  the value that comes back is the string, not an integer.
\<close>

theorem format_answer_number_cases_counterexample:
  "py_float (number_text (PStr ''inf'')) = Some (Inf False)
   \<and> CHR ''.'' \<notin> set (number_text (PStr ''inf''))
   \<and> format_answer (\<lambda>s. None) (PStr ''inf'') (PStr ''number'') = PStr ''inf''"
proof -
  have n: "number_text (PStr ''inf'') = ''inf''"
    by (simp add: number_text_def py_str_def str_eval)
  have "format_answer (\<lambda>s. None) (PStr ''inf'') (PStr ''number'') = PStr ''inf''"
    by (simp add: format_answer_def number_text_code n py_float_inf py_int_of_float_def Let_def)
  with n py_float_inf show ?thesis by simp
qed

text \<open>
  Claim C10, as amended. Coercion is idempotent for \<open>boolean\<close> and for \<open>string\<close> (and
  for every format the function does not know, which it treats as \<open>string\<close>). It is not
  idempotent for \<open>number\<close>, as the counterexample below shows, nor for \<open>object\<close>: when
  the decoder reads the JSON string literal \<open>"a"\<close> as the string \<open>a\<close> and rejects the
  text \<open>a\<close>, the first application gives the string and the second wraps it.
\<close>

theorem format_answer_idempotent_boolean_string:
  "(fmt \<noteq> PStr ''number'' \<and> fmt \<noteq> PStr ''object'' \<longrightarrow>
      format_answer json_loads (format_answer json_loads v fmt) fmt = format_answer json_loads v fmt)
   \<and> (json_loads [CHR 0x22, CHR ''a'', CHR 0x22] = Some (PStr ''a'') \<and> json_loads ''a'' = None \<longrightarrow>
        format_answer json_loads
          (format_answer json_loads (PStr [CHR 0x22, CHR ''a'', CHR 0x22]) (PStr ''object''))
          (PStr ''object'')
        \<noteq> format_answer json_loads (PStr [CHR 0x22, CHR ''a'', CHR 0x22]) (PStr ''object''))"
proof (intro conjI impI)
  assume f: "fmt \<noteq> PStr ''number'' \<and> fmt \<noteq> PStr ''object''"
  show "format_answer json_loads (format_answer json_loads v fmt) fmt = format_answer json_loads v fmt"
  proof (cases "fmt = PStr ''boolean''")
    case True
    have "py_lower (py_str (PBool b)) \<in> set [''true'', ''1'', ''yes'', ''correct'', ''y''] \<longleftrightarrow> b" for b
      by (cases b) (simp_all add: py_str_def str_eval)
    with True show ?thesis by (simp add: format_answer_def)
  next
    case False
    with f show ?thesis by (simp add: format_answer_def py_str_def py_strip_idem)
  qed
next
  assume "json_loads [CHR 0x22, CHR ''a'', CHR 0x22] = Some (PStr ''a'') \<and> json_loads ''a'' = None"
  then show "format_answer json_loads
          (format_answer json_loads (PStr [CHR 0x22, CHR ''a'', CHR 0x22]) (PStr ''object''))
          (PStr ''object'')
        \<noteq> format_answer json_loads (PStr [CHR 0x22, CHR ''a'', CHR 0x22]) (PStr ''object'')"
    by (simp add: format_answer_def)
qed

text \<open>
  The theorem at the format \<open>boolean\<close> and the value \<open>Yes\<close>, and at a decoder that reads
  the one literal and rejects every other text.
\<close>

theorem format_answer_idempotent_boolean_string_witness:
  "format_answer (\<lambda>s. if s = [CHR 0x22, CHR ''a'', CHR 0x22] then Some (PStr ''a'') else None)
     (format_answer (\<lambda>s. if s = [CHR 0x22, CHR ''a'', CHR 0x22] then Some (PStr ''a'') else None)
        (PStr ''Yes'') (PStr ''boolean'')) (PStr ''boolean'')
   = PBool True
   \<and> format_answer (\<lambda>s. if s = [CHR 0x22, CHR ''a'', CHR 0x22] then Some (PStr ''a'') else None)
       (PStr [CHR 0x22, CHR ''a'', CHR 0x22]) (PStr ''object'') = PStr ''a''
   \<and> format_answer (\<lambda>s. if s = [CHR 0x22, CHR ''a'', CHR 0x22] then Some (PStr ''a'') else None)
       (PStr ''a'') (PStr ''object'') = PDict [(''value'', PStr ''a'')]"
proof -
  let ?jl = "\<lambda>s. if s = [CHR 0x22, CHR ''a'', CHR 0x22] then Some (PStr ''a'') else None"
  have h1: "PStr ''boolean'' \<noteq> PStr ''number'' \<and> PStr ''boolean'' \<noteq> PStr ''object''" by simp
  have h2: "?jl [CHR 0x22, CHR ''a'', CHR 0x22] = Some (PStr ''a'') \<and> ?jl ''a'' = None" by simp
  have once: "format_answer ?jl (PStr ''Yes'') (PStr ''boolean'') = PBool True"
    by (simp add: format_answer_def py_str_def str_eval)
  have o1: "format_answer ?jl (PStr [CHR 0x22, CHR ''a'', CHR 0x22]) (PStr ''object'') = PStr ''a''"
    by (simp add: format_answer_def)
  note inst = format_answer_idempotent_boolean_string [of "PStr ''boolean''" ?jl "PStr ''Yes''"]
  from inst h1 once
  have 1: "format_answer ?jl (format_answer ?jl (PStr ''Yes'') (PStr ''boolean'')) (PStr ''boolean'')
      = PBool True" by simp
  from inst h2 o1
  have "format_answer ?jl (PStr ''a'') (PStr ''object'') \<noteq> PStr ''a''" by simp
  then have 3: "format_answer ?jl (PStr ''a'') (PStr ''object'') = PDict [(''value'', PStr ''a'')]"
    by (simp add: format_answer_def)
  from 1 o1 3 show ?thesis by blast
qed

text \<open>
  The claim as stated fails for \<open>number\<close>. The text \<open>0.00001\<close> has a decimal point and
  coerces to the float that Python prints as \<open>1e-05\<close>. That string has no decimal point,
  so the second application sends the float through \<open>int\<close>, and the result is the
  integer 0.
\<close>

theorem format_answer_idempotent_boolean_string_counterexample:
  "format_answer (\<lambda>s. None) (PStr ''0.00001'') (PStr ''number'')
     = PFloat (Fin False 5902958103587057 (- 69))
   \<and> py_str (PFloat (Fin False 5902958103587057 (- 69))) = ''1e-05''
   \<and> format_answer (\<lambda>s. None)
        (format_answer (\<lambda>s. None) (PStr ''0.00001'') (PStr ''number'')) (PStr ''number'')
     = PInt 0"
proof -
  have n1: "number_text (PStr ''0.00001'') = ''0.00001''"
    by (simp add: number_text_def py_str_def str_eval)
  have once: "format_answer (\<lambda>s. None) (PStr ''0.00001'') (PStr ''number'')
     = PFloat (Fin False 5902958103587057 (- 69))"
    by (simp add: format_answer_def number_text_code n1 py_float_small Let_def)
  have s: "py_str (PFloat (Fin False 5902958103587057 (- 69))) = ''1e-05''"
    by (simp add: py_str_def float_repr_1e_05)
  have n2: "number_text (PFloat (Fin False 5902958103587057 (- 69))) = ''1e-05''"
    by (simp add: number_text_def s str_eval)
  have twice: "format_answer (\<lambda>s. None) (PFloat (Fin False 5902958103587057 (- 69))) (PStr ''number'')
     = PInt 0"
    by (simp add: format_answer_def number_text_code n2 py_float_1e_05 py_int_of_float_def Let_def)
  from once s twice show ?thesis by simp
qed

section \<open>Claims about text cleaning\<close>

text \<open>
  Claim C5, as amended. After the response is stripped and the fences and the leading
  label are removed, every line is stripped before it is looked at. The lines that are
  non-empty once stripped are scanned from the end: the first one that \<open>float\<close> accepts
  with its commas and spaces struck out is returned in that struck-out form; when there
  is none, the last such line is returned, stripped; when every line is blank the result
  is the empty string. The input \<open>Result: \n1,234.50\<close> cleans to \<open>1234.50\<close>.
\<close>

theorem extract_answer_stripped_lines:
  "extract_answer raw =
     (case find (\<lambda>l. py_float (strike_commas_spaces l) \<noteq> None)
             (rev (stripped_lines (clean_response raw))) of
        Some l \<Rightarrow> strike_commas_spaces l
      | None \<Rightarrow>
          if stripped_lines (clean_response raw) = [] then []
          else last (stripped_lines (clean_response raw)))
   \<and> clean_response raw = sub_label (py_replace backticks [] (sub_fences (py_strip raw)))
   \<and> extract_answer (''Result: '' @ [CHR 0x0A] @ ''1,234.50'') = ''1234.50''"
proof (intro conjI)
  show "extract_answer raw =
     (case find (\<lambda>l. py_float (strike_commas_spaces l) \<noteq> None)
             (rev (stripped_lines (clean_response raw))) of
        Some l \<Rightarrow> strike_commas_spaces l
      | None \<Rightarrow>
          if stripped_lines (clean_response raw) = [] then []
          else last (stripped_lines (clean_response raw)))"
    by (rule extract_answer_spec)
  show "clean_response raw = sub_label (py_replace backticks [] (sub_fences (py_strip raw)))"
    by (simp add: clean_response_def)
  show "extract_answer (''Result: '' @ [CHR 0x0A] @ ''1,234.50'') = ''1234.50''"
  proof -
    have c: "clean_response (''Result: '' @ [CHR 0x0A] @ ''1,234.50'') = ''1,234.50''"
      by (simp add: extract_eval str_eval)
    have f: "py_float ''1234.50'' = Some (Fin False 5429388417957888 (- 42))"
      by (simp add: float_eval)
    show ?thesis
      unfolding extract_answer_def c Let_def
      by (simp add: clean_num_def f str_eval)
  qed
qed

text \<open>
  A response with a label, a number on its first line and words on its last: the scan
  from the end passes the words and returns the number.
\<close>

theorem extract_answer_stripped_lines_witness:
  "extract_answer (''Answer: 1,2'' @ [CHR 0x0A] @ '' ok '') = ''12''"
proof -
  let ?raw = "''Answer: 1,2'' @ [CHR 0x0A] @ '' ok ''"
  have c: "clean_response ?raw = ''1,2'' @ [CHR 0x0A] @ '' ok''"
    by (simp add: extract_eval str_eval)
  have l: "stripped_lines (''1,2'' @ [CHR 0x0A] @ '' ok'') = [''1,2'', ''ok'']"
    by (simp add: stripped_lines_def str_eval)
  have f: "py_float (strike_commas_spaces ''ok'') = None"
    "py_float (strike_commas_spaces ''1,2'') = Some (Fin False 6755399441055744 (- 49))"
    by (simp_all add: strike_commas_spaces_def float_eval)
  have "find (\<lambda>l. py_float (strike_commas_spaces l) \<noteq> None) (rev (stripped_lines (clean_response ?raw)))
      = Some ''1,2''"
    unfolding c l by (simp add: f)
  with extract_answer_stripped_lines [of ?raw]
  have "extract_answer ?raw = strike_commas_spaces ''1,2''" by simp
  then show ?thesis by (simp add: strike_commas_spaces_def)
qed

text \<open>
  The claim as stated fails: the last non-empty line of this cleaned response is
  \<open>y\<close> behind two spaces, and what is returned is \<open>y\<close> without them, not the line as
  it stands.
\<close>

theorem extract_answer_stripped_lines_counterexample:
  "py_split_lines (clean_response (''x'' @ [CHR 0x0A] @ ''  y'')) = [''x'', ''  y'']
   \<and> extract_answer (''x'' @ [CHR 0x0A] @ ''  y'') = ''y''"
proof -
  have c: "clean_response (''x'' @ [CHR 0x0A] @ ''  y'') = ''x'' @ [CHR 0x0A] @ ''  y''"
    by (simp add: extract_eval str_eval)
  have f: "py_float ''y'' = None" "py_float ''x'' = None"
    by (simp_all add: float_eval)
  show ?thesis
    unfolding extract_answer_def c Let_def
    by (simp add: clean_num_def f str_eval)
qed

section \<open>Claims about the chain driver, submission and the HTTP boundary\<close>

text \<open>
  Claim C1, as amended. The counter never passes 20: the run returns a count of at most
  20, and no question beyond the twentieth is ever asked of the world (two worlds that
  agree on questions 1 to 20 give the same run). When the start URL is not empty and each
  of the questions 1 to 20 is rendered and solved without an exception and its submission
  is answered with an object that holds a non-empty next URL, the run ends after exactly
  20 questions. With an empty start URL the loop is never entered and the count is 0.
\<close>

theorem solve_quiz_chain_capped:
  "(\<exists>n\<le>20. solve_quiz_chain w cfg start_url = PDict [(''questions_solved'', PInt (int n))])
   \<and> ((\<forall>n. 1 \<le> n \<and> n \<le> 20 \<longrightarrow>
             fetch_quiz_page w n = fetch_quiz_page w' n
           \<and> solve_question w n = solve_question w' n
           \<and> requests_post w n = requests_post w' n) \<longrightarrow>
        solve_quiz_chain w cfg start_url = solve_quiz_chain w' cfg start_url)
   \<and> (start_url \<noteq> []
        \<and> (\<forall>n u. 1 \<le> n \<and> n \<le> 20 \<longrightarrow>
             (\<exists>question_text answer target response.
                 fetch_quiz_page w n u = Some question_text
               \<and> solve_question w n question_text = Some (answer, target)
               \<and> submit_answer (requests_post w n) cfg target answer = PDict response
               \<and> py_truthy (dict_get response ''url''))) \<longrightarrow>
        solve_quiz_chain w cfg start_url = PDict [(''questions_solved'', PInt 20)])
   \<and> solve_quiz_chain w cfg [] = PDict [(''questions_solved'', PInt 0)]"
proof (intro conjI impI)
  have "chain_loop w cfg (PStr start_url) 0 \<le> max_questions"
    by (rule chain_loop_le) simp
  then show "\<exists>n\<le>20. solve_quiz_chain w cfg start_url = PDict [(''questions_solved'', PInt (int n))]"
    by (auto simp: solve_quiz_chain_def max_questions_def)
next
  assume agree: "\<forall>n. 1 \<le> n \<and> n \<le> 20 \<longrightarrow>
             fetch_quiz_page w n = fetch_quiz_page w' n
           \<and> solve_question w n = solve_question w' n
           \<and> requests_post w n = requests_post w' n"
  have "chain_loop w cfg (PStr start_url) 0 = chain_loop w' cfg (PStr start_url) 0"
  proof (rule chain_loop_cong, intro allI impI)
    fix n u
    assume "1 \<le> n \<and> n \<le> max_questions"
    with agree have e: "fetch_quiz_page w n = fetch_quiz_page w' n"
      "solve_question w n = solve_question w' n"
      "requests_post w n = requests_post w' n"
      by (simp_all add: max_questions_def)
    show "question_body w cfg n u = question_body w' cfg n u"
      unfolding question_body_def e ..
  qed
  then show "solve_quiz_chain w cfg start_url = solve_quiz_chain w' cfg start_url"
    by (simp add: solve_quiz_chain_def)
next
  assume a: "start_url \<noteq> []
        \<and> (\<forall>n u. 1 \<le> n \<and> n \<le> 20 \<longrightarrow>
             (\<exists>question_text answer target response.
                 fetch_quiz_page w n u = Some question_text
               \<and> solve_question w n question_text = Some (answer, target)
               \<and> submit_answer (requests_post w n) cfg target answer = PDict response
               \<and> py_truthy (dict_get response ''url'')))"
  have "\<forall>n u. 1 \<le> n \<and> n \<le> max_questions \<longrightarrow>
          (\<exists>v. question_body w cfg n u = Some v \<and> py_truthy v)"
  proof (intro allI impI)
    fix n u
    assume "1 \<le> n \<and> n \<le> max_questions"
    with a obtain question_text answer target response where
      "fetch_quiz_page w n u = Some question_text"
      "solve_question w n question_text = Some (answer, target)"
      "submit_answer (requests_post w n) cfg target answer = PDict response"
      "py_truthy (dict_get response ''url'')"
      unfolding max_questions_def by blast
    then show "\<exists>v. question_body w cfg n u = Some v \<and> py_truthy v"
      by (simp add: question_body_def)
  qed
  moreover from a have "py_truthy (PStr start_url)" by (simp add: py_truthy_def)
  ultimately have "chain_loop w cfg (PStr start_url) 0 = max_questions"
    by (intro chain_loop_full) simp_all
  then show "solve_quiz_chain w cfg start_url = PDict [(''questions_solved'', PInt 20)]"
    by (simp add: solve_quiz_chain_def max_questions_def)
next
  show "solve_quiz_chain w cfg [] = PDict [(''questions_solved'', PInt 0)]"
    by (simp add: solve_quiz_chain_def chain_loop_exit py_truthy_def)
qed

text \<open>
  A world that would fail at a question 21: the run ends after 20 questions, and it is
  the run of the world that never fails.
\<close>

theorem solve_quiz_chain_capped_witness:
  "solve_quiz_chain (fetch_fails_from 21) \<lparr> email = Some ''e'', secret = Some ''s'' \<rparr> ''http://h/q1''
     = PDict [(''questions_solved'', PInt 20)]
   \<and> solve_quiz_chain (fetch_fails_from 21) \<lparr> email = Some ''e'', secret = Some ''s'' \<rparr> ''http://h/q1''
     = solve_quiz_chain always_next_world \<lparr> email = Some ''e'', secret = Some ''s'' \<rparr> ''http://h/q1''"
proof -
  let ?cfg = "\<lparr> email = Some ''e'', secret = Some ''s'' \<rparr>"
  let ?w = "fetch_fails_from 21"
  have h1: "\<forall>n. 1 \<le> n \<and> n \<le> 20 \<longrightarrow>
             fetch_quiz_page ?w n = fetch_quiz_page always_next_world n
           \<and> solve_question ?w n = solve_question always_next_world n
           \<and> requests_post ?w n = requests_post always_next_world n"
    by (simp add: fetch_fails_from_def)
  have h2: "''http://h/q1'' \<noteq> []
        \<and> (\<forall>n u. 1 \<le> n \<and> n \<le> 20 \<longrightarrow>
             (\<exists>question_text answer target response.
                 fetch_quiz_page ?w n u = Some question_text
               \<and> solve_question ?w n question_text = Some (answer, target)
               \<and> submit_answer (requests_post ?w n) ?cfg target answer = PDict response
               \<and> py_truthy (dict_get response ''url'')))"
    by (simp add: fetch_fails_from_def always_next_world_def submit_answer_def
        raises_for_status_def dict_get_def py_truthy_def)
  from h1 h2 show ?thesis
    using solve_quiz_chain_capped [of ?w ?cfg "''http://h/q1''" always_next_world] by blast
qed

text \<open>
  The claim as stated fails: in a world where the first two submissions are answered
  with a next URL and rendering the third page raises, every submission response holds a
  next URL, and the run ends after 3 questions.
\<close>

theorem solve_quiz_chain_capped_counterexample:
  "submit_answer (requests_post (fetch_fails_from 3) 1) \<lparr> email = Some ''e'', secret = Some ''s'' \<rparr>
       (PStr ''http://h/submit'') (PStr ''2'')
     = PDict [(''correct'', PBool True), (''url'', PStr ''http://h/next'')]
   \<and> submit_answer (requests_post (fetch_fails_from 3) 2) \<lparr> email = Some ''e'', secret = Some ''s'' \<rparr>
       (PStr ''http://h/submit'') (PStr ''2'')
     = PDict [(''correct'', PBool True), (''url'', PStr ''http://h/next'')]
   \<and> fetch_quiz_page (fetch_fails_from 3) 3 (PStr ''http://h/next'') = None
   \<and> solve_quiz_chain (fetch_fails_from 3) \<lparr> email = Some ''e'', secret = Some ''s'' \<rparr> ''http://h/q1''
     = PDict [(''questions_solved'', PInt 3)]"
proof -
  let ?cfg = "\<lparr> email = Some ''e'', secret = Some ''s'' \<rparr>"
  let ?w = "fetch_fails_from 3"
  have s1: "chain_loop ?w ?cfg (PStr ''http://h/q1'') 0 = chain_loop ?w ?cfg (PStr ''http://h/next'') 1"
    using chain_loop_step [of "PStr ''http://h/q1''" 0 ?w ?cfg "PStr ''http://h/next''"]
    by (simp add: question_body_fetch_fails py_truthy_def max_questions_def)
  have s2: "chain_loop ?w ?cfg (PStr ''http://h/next'') 1 = chain_loop ?w ?cfg (PStr ''http://h/next'') 2"
    using chain_loop_step [of "PStr ''http://h/next''" 1 ?w ?cfg "PStr ''http://h/next''"]
    by (simp add: question_body_fetch_fails py_truthy_def max_questions_def numeral_2_eq_2)
  have s3: "chain_loop ?w ?cfg (PStr ''http://h/next'') 2 = 3"
    using chain_loop_break [of "PStr ''http://h/next''" 2 ?w ?cfg]
    by (simp add: question_body_fetch_fails py_truthy_def max_questions_def numeral_3_eq_3)
  from s1 s2 s3 have "chain_loop ?w ?cfg (PStr ''http://h/q1'') 0 = 3" by simp
  then show ?thesis
    by (simp add: solve_quiz_chain_def fetch_fails_from_def always_next_world_def
        submit_answer_def raises_for_status_def)
qed

text \<open>
  Claim C7, as amended. A response with a status from 400 to 599 becomes
  \<open>{correct: False, error: "HTTP <code>", details: <body>}\<close>; an exception of the POST, or
  of decoding the body of a response with another status, becomes
  \<open>{correct: False, error: <message>}\<close>; a response with another status (2xx, but also
  1xx and 3xx) whose body decodes is returned as decoded. No exception leaves
  \<open>submit_answer\<close>, so after a failed submission the loop body runs to its end; but the
  result holds no \<open>url\<close>, \<open>current_url\<close> becomes \<open>None\<close>, and the loop condition ends
  the chain run with that question.
\<close>

theorem submit_answer_failure_ends_chain:
  "(post target (submit_payload cfg answer) = PostResponse r
      \<and> 400 \<le> status_code r \<and> status_code r < 600 \<longrightarrow>
      submit_answer post cfg target answer =
        PDict [(''correct'', PBool False),
               (''error'', PStr (''HTTP '' @ show_nat (status_code r))),
               (''details'', PStr (body_text r))])
   \<and> (post target (submit_payload cfg answer) = PostRaises msg \<longrightarrow>
        submit_answer post cfg target answer =
          PDict [(''correct'', PBool False), (''error'', PStr msg)])
   \<and> (post target (submit_payload cfg answer) = PostResponse r
        \<and> \<not> (400 \<le> status_code r \<and> status_code r < 600) \<and> json_body r = Inl msg \<longrightarrow>
        submit_answer post cfg target answer =
          PDict [(''correct'', PBool False), (''error'', PStr msg)])
   \<and> (post target (submit_payload cfg answer) = PostResponse r
        \<and> \<not> (400 \<le> status_code r \<and> status_code r < 600) \<and> json_body r = Inr v \<longrightarrow>
        submit_answer post cfg target answer = v)
   \<and> (py_truthy u \<and> question_count < 20
        \<and> fetch_quiz_page w (question_count + 1) u = Some question_text
        \<and> solve_question w (question_count + 1) question_text = Some (answer, target)
        \<and> submission_failed (requests_post w (question_count + 1) target (submit_payload cfg answer))
        \<longrightarrow>
        question_body w cfg (question_count + 1) u = Some PNone
        \<and> chain_loop w cfg u question_count = question_count + 1)"
proof (intro conjI impI)
  assume "post target (submit_payload cfg answer) = PostResponse r
      \<and> 400 \<le> status_code r \<and> status_code r < 600"
  then show "submit_answer post cfg target answer =
        PDict [(''correct'', PBool False),
               (''error'', PStr (''HTTP '' @ show_nat (status_code r))),
               (''details'', PStr (body_text r))]"
    by (simp add: submit_answer_def submit_payload_def raises_for_status_def)
next
  assume "post target (submit_payload cfg answer) = PostRaises msg"
  then show "submit_answer post cfg target answer =
          PDict [(''correct'', PBool False), (''error'', PStr msg)]"
    by (simp add: submit_answer_def submit_payload_def)
next
  assume "post target (submit_payload cfg answer) = PostResponse r
        \<and> \<not> (400 \<le> status_code r \<and> status_code r < 600) \<and> json_body r = Inl msg"
  then show "submit_answer post cfg target answer =
          PDict [(''correct'', PBool False), (''error'', PStr msg)]"
    by (auto simp: submit_answer_def submit_payload_def raises_for_status_def)
next
  assume "post target (submit_payload cfg answer) = PostResponse r
        \<and> \<not> (400 \<le> status_code r \<and> status_code r < 600) \<and> json_body r = Inr v"
  then show "submit_answer post cfg target answer = v"
    by (auto simp: submit_answer_def submit_payload_def raises_for_status_def)
next
  assume a: "py_truthy u \<and> question_count < 20
        \<and> fetch_quiz_page w (question_count + 1) u = Some question_text
        \<and> solve_question w (question_count + 1) question_text = Some (answer, target)
        \<and> submission_failed (requests_post w (question_count + 1) target (submit_payload cfg answer))"
  then have "\<exists>kvs. submit_answer (requests_post w (question_count + 1)) cfg target answer = PDict kvs
      \<and> dict_get kvs ''url'' = PNone"
    by (auto simp: submission_failed_def submit_answer_def submit_payload_def dict_get_def
        split: post_outcome.splits sum.splits)
  with a show body: "question_body w cfg (question_count + 1) u = Some PNone"
    by (auto simp: question_body_def)
  from a body show "chain_loop w cfg u question_count = question_count + 1"
    by (intro chain_loop_last [of u question_count w cfg PNone])
       (simp_all add: max_questions_def py_truthy_def)
qed

text \<open>
  One submission for each case. In the world whose first POST is answered with status
  500 the first question's body runs through with \<open>None\<close> as the next URL, and the run
  ends there.
\<close>

theorem submit_answer_failure_ends_chain_witness:
  "submit_answer (requests_post failing_first_world 1) \<lparr> email = Some ''e'', secret = Some ''s'' \<rparr>
     (PStr ''http://h/submit'') (PStr ''2'')
     = PDict [(''correct'', PBool False), (''error'', PStr ''HTTP 500''),
              (''details'', PStr ''Internal Server Error'')]
   \<and> submit_answer (\<lambda>u payload. PostRaises ''Read timed out'')
       \<lparr> email = Some ''e'', secret = Some ''s'' \<rparr> (PStr ''http://h/submit'') (PStr ''2'')
     = PDict [(''correct'', PBool False), (''error'', PStr ''Read timed out'')]
   \<and> submit_answer (\<lambda>u payload. PostResponse
          \<lparr> status_code = 200, body_text = ''ok'', json_body = Inl ''Expecting value'' \<rparr>)
       \<lparr> email = Some ''e'', secret = Some ''s'' \<rparr> (PStr ''http://h/submit'') (PStr ''2'')
     = PDict [(''correct'', PBool False), (''error'', PStr ''Expecting value'')]
   \<and> submit_answer (\<lambda>u payload. PostResponse
          \<lparr> status_code = 302, body_text = ''[]'', json_body = Inr (PList []) \<rparr>)
       \<lparr> email = Some ''e'', secret = Some ''s'' \<rparr> (PStr ''http://h/submit'') (PStr ''2'')
     = PList []
   \<and> question_body failing_first_world \<lparr> email = Some ''e'', secret = Some ''s'' \<rparr> 1
        (PStr ''http://h/q1'') = Some PNone
   \<and> chain_loop failing_first_world \<lparr> email = Some ''e'', secret = Some ''s'' \<rparr>
        (PStr ''http://h/q1'') 0 = 1"
proof -
  let ?cfg = "\<lparr> email = Some ''e'', secret = Some ''s'' \<rparr>"
  let ?r = "\<lparr> status_code = 500, body_text = ''Internal Server Error'',
             json_body = Inl ''Expecting value: line 1 column 1 (char 0)'' \<rparr>"
  let ?r2 = "\<lparr> status_code = 200, body_text = ''ok'', json_body = Inl ''Expecting value'' \<rparr>"
  let ?r3 = "\<lparr> status_code = 302, body_text = ''[]'', json_body = Inr (PList []) \<rparr>"
  note inst = submit_answer_failure_ends_chain
    [of "requests_post failing_first_world 1" "PStr ''http://h/submit''" ?cfg "PStr ''2''" ?r
        _ _ "PStr ''http://h/q1''" 0 failing_first_world "''What is 1 + 1?''"]
  have p: "requests_post failing_first_world 1 (PStr ''http://h/submit'') (submit_payload ?cfg (PStr ''2''))
      = PostResponse ?r"
    by (simp add: failing_first_world_def)
  have h1: "400 \<le> status_code ?r \<and> status_code ?r < 600" by simp
  have h2: "py_truthy (PStr ''http://h/q1'') \<and> (0::nat) < 20
      \<and> fetch_quiz_page failing_first_world (0 + 1) (PStr ''http://h/q1'') = Some ''What is 1 + 1?''
      \<and> solve_question failing_first_world (0 + 1) ''What is 1 + 1?''
          = Some (PStr ''2'', PStr ''http://h/submit'')
      \<and> submission_failed (requests_post failing_first_world (0 + 1) (PStr ''http://h/submit'')
            (submit_payload ?cfg (PStr ''2'')))"
    by (simp add: failing_first_world_def always_next_world_def py_truthy_def
        submission_failed_def raises_for_status_def)
  have s: "show_nat 500 = ''500''" by (simp add: digit_eval)
  from inst p h1 s have 1: "submit_answer (requests_post failing_first_world 1) ?cfg
     (PStr ''http://h/submit'') (PStr ''2'')
     = PDict [(''correct'', PBool False), (''error'', PStr ''HTTP 500''),
              (''details'', PStr ''Internal Server Error'')]"
    by simp
  from inst h2 have 2: "question_body failing_first_world ?cfg 1 (PStr ''http://h/q1'') = Some PNone
      \<and> chain_loop failing_first_world ?cfg (PStr ''http://h/q1'') 0 = 1"
    by simp
  have 3: "submit_answer (\<lambda>u payload. PostRaises ''Read timed out'') ?cfg
      (PStr ''http://h/submit'') (PStr ''2'')
     = PDict [(''correct'', PBool False), (''error'', PStr ''Read timed out'')]"
    using submit_answer_failure_ends_chain
      [where post = "\<lambda>u payload. PostRaises ''Read timed out''" and cfg = ?cfg
         and target = "PStr ''http://h/submit''" and answer = "PStr ''2''"
         and msg = "''Read timed out''"]
    by simp
  have 4: "submit_answer (\<lambda>u payload. PostResponse ?r2) ?cfg
      (PStr ''http://h/submit'') (PStr ''2'')
     = PDict [(''correct'', PBool False), (''error'', PStr ''Expecting value'')]"
    using submit_answer_failure_ends_chain
      [where post = "\<lambda>u payload. PostResponse ?r2" and cfg = ?cfg
         and target = "PStr ''http://h/submit''" and answer = "PStr ''2''"
         and r = ?r2 and msg = "''Expecting value''"]
    by simp
  have 5: "submit_answer (\<lambda>u payload. PostResponse ?r3) ?cfg
      (PStr ''http://h/submit'') (PStr ''2'') = PList []"
    using submit_answer_failure_ends_chain
      [where post = "\<lambda>u payload. PostResponse ?r3" and cfg = ?cfg
         and target = "PStr ''http://h/submit''" and answer = "PStr ''2''"
         and r = ?r3 and v = "PList []"]
    by simp
  from 1 2 3 4 5 show ?thesis by blast
qed

text \<open>
  The claim as stated fails: the two worlds differ in the answer to the first
  submission only. Where it succeeds the run goes on to 20 questions; where it fails the
  run is over after the first.
\<close>

theorem submit_answer_failure_ends_chain_counterexample:
  "solve_quiz_chain always_next_world \<lparr> email = Some ''e'', secret = Some ''s'' \<rparr> ''http://h/q1''
     = PDict [(''questions_solved'', PInt 20)]
   \<and> solve_quiz_chain failing_first_world \<lparr> email = Some ''e'', secret = Some ''s'' \<rparr> ''http://h/q1''
     = PDict [(''questions_solved'', PInt 1)]"
proof -
  let ?cfg = "\<lparr> email = Some ''e'', secret = Some ''s'' \<rparr>"
  have b: "question_body failing_first_world ?cfg (0 + 1) (PStr ''http://h/q1'') = Some PNone"
    by (simp add: question_body_def failing_first_world_def always_next_world_def
        submit_answer_def raises_for_status_def dict_get_def)
  have "chain_loop failing_first_world ?cfg (PStr ''http://h/q1'') 0 = 0 + 1"
    by (rule chain_loop_last [OF _ _ b]) (simp_all add: py_truthy_def max_questions_def)
  then have "solve_quiz_chain failing_first_world ?cfg ''http://h/q1''
     = PDict [(''questions_solved'', PInt 1)]"
    by (simp add: solve_quiz_chain_def)
  with solve_quiz_chain_always_next [of ?cfg] show ?thesis by simp
qed
text \<open>
  Claim C2, as amended. A request whose secret or e-mail does not match is refused with
  status 403 before anything else happens. For a matching request, once the solver is
  built (the API key is set), the endpoint returns, with status 200, the body
  \<open>{status: "success", message, result: {questions_solved: n}}\<close> with \<open>n\<close> at most 20,
  whatever happens while solving: an exception raised while a question is rendered,
  solved or submitted is caught inside the chain driver's loop, which stops the chain and
  counts the question, and the body still says \<open>success\<close>.
\<close>

theorem solve_quiz_reports_success:
  "(Some (req_secret request) \<noteq> SECRET_STRING env \<longrightarrow>
      solve_quiz w env request = HttpException 403 ''Invalid secret'')
   \<and> (Some (req_secret request) = SECRET_STRING env
        \<and> Some (req_email request) \<noteq> STUDENT_EMAIL env \<longrightarrow>
        solve_quiz w env request = HttpException 403 ''Invalid email'')
   \<and> (Some (req_secret request) = SECRET_STRING env
        \<and> Some (req_email request) = STUDENT_EMAIL env
        \<and> GEMINI_API_KEY env = Some key \<and> key \<noteq> [] \<longrightarrow>
        (\<exists>n\<le>20. solve_quiz w env request =
           Returned (PDict [(''status'', PStr ''success''),
                            (''message'', PStr ''Quiz solving completed''),
                            (''result'', PDict [(''questions_solved'', PInt (int n))])])))
   \<and> (Some (req_secret request) = SECRET_STRING env
        \<and> Some (req_email request) = STUDENT_EMAIL env
        \<and> GEMINI_API_KEY env = Some key \<and> key \<noteq> []
        \<and> req_url request \<noteq> [] \<and> fetch_quiz_page w 1 (PStr (req_url request)) = None \<longrightarrow>
        solve_quiz w env request =
           Returned (PDict [(''status'', PStr ''success''),
                            (''message'', PStr ''Quiz solving completed''),
                            (''result'', PDict [(''questions_solved'', PInt 1)])]))"
proof (intro conjI impI)
  assume "Some (req_secret request) \<noteq> SECRET_STRING env"
  then show "solve_quiz w env request = HttpException 403 ''Invalid secret''"
    by (simp add: solve_quiz_def)
next
  assume "Some (req_secret request) = SECRET_STRING env
        \<and> Some (req_email request) \<noteq> STUDENT_EMAIL env"
  then show "solve_quiz w env request = HttpException 403 ''Invalid email''"
    by (simp add: solve_quiz_def)
next
  assume a: "Some (req_secret request) = SECRET_STRING env
        \<and> Some (req_email request) = STUDENT_EMAIL env
        \<and> GEMINI_API_KEY env = Some key \<and> key \<noteq> []"
  let ?cfg = "\<lparr> email = STUDENT_EMAIL env, secret = SECRET_STRING env \<rparr>"
  have "chain_loop w ?cfg (PStr (req_url request)) 0 \<le> max_questions"
    by (rule chain_loop_le) simp
  with a show "\<exists>n\<le>20. solve_quiz w env request =
           Returned (PDict [(''status'', PStr ''success''),
                            (''message'', PStr ''Quiz solving completed''),
                            (''result'', PDict [(''questions_solved'', PInt (int n))])])"
    by (auto simp: solve_quiz_def quiz_solver_init_def llm_handler_init_def solve_quiz_chain_def
        max_questions_def)
next
  assume a: "Some (req_secret request) = SECRET_STRING env
        \<and> Some (req_email request) = STUDENT_EMAIL env
        \<and> GEMINI_API_KEY env = Some key \<and> key \<noteq> []
        \<and> req_url request \<noteq> [] \<and> fetch_quiz_page w 1 (PStr (req_url request)) = None"
  let ?cfg = "\<lparr> email = STUDENT_EMAIL env, secret = SECRET_STRING env \<rparr>"
  from a have "question_body w ?cfg (0 + 1) (PStr (req_url request)) = None"
    by (simp add: question_body_def)
  with a have "chain_loop w ?cfg (PStr (req_url request)) 0 = 0 + 1"
    by (intro chain_loop_break) (simp_all add: py_truthy_def max_questions_def)
  with a show "solve_quiz w env request =
           Returned (PDict [(''status'', PStr ''success''),
                            (''message'', PStr ''Quiz solving completed''),
                            (''result'', PDict [(''questions_solved'', PInt 1)])])"
    by (simp add: solve_quiz_def quiz_solver_init_def llm_handler_init_def solve_quiz_chain_def)
qed

text \<open>
  A matching request in the world where rendering raises from the first question on, a
  request with a wrong secret, and one with a wrong e-mail.
\<close>

theorem solve_quiz_reports_success_witness:
  "solve_quiz (fetch_fails_from 1)
     \<lparr> SECRET_STRING = Some ''s'', STUDENT_EMAIL = Some ''e'', GEMINI_API_KEY = Some ''k'' \<rparr>
     \<lparr> req_email = ''e'', req_secret = ''s'', req_url = ''http://h/q1'' \<rparr>
     = Returned (PDict [(''status'', PStr ''success''),
                        (''message'', PStr ''Quiz solving completed''),
                        (''result'', PDict [(''questions_solved'', PInt 1)])])
   \<and> solve_quiz (fetch_fails_from 1)
     \<lparr> SECRET_STRING = Some ''s'', STUDENT_EMAIL = Some ''e'', GEMINI_API_KEY = Some ''k'' \<rparr>
     \<lparr> req_email = ''e'', req_secret = ''x'', req_url = ''http://h/q1'' \<rparr>
     = HttpException 403 ''Invalid secret''
   \<and> solve_quiz (fetch_fails_from 1)
     \<lparr> SECRET_STRING = Some ''s'', STUDENT_EMAIL = Some ''e'', GEMINI_API_KEY = Some ''k'' \<rparr>
     \<lparr> req_email = ''f'', req_secret = ''s'', req_url = ''http://h/q1'' \<rparr>
     = HttpException 403 ''Invalid email''"
proof -
  let ?env = "\<lparr> SECRET_STRING = Some ''s'', STUDENT_EMAIL = Some ''e'', GEMINI_API_KEY = Some ''k'' \<rparr>"
  let ?good = "\<lparr> req_email = ''e'', req_secret = ''s'', req_url = ''http://h/q1'' \<rparr>"
  let ?bad = "\<lparr> req_email = ''e'', req_secret = ''x'', req_url = ''http://h/q1'' \<rparr>"
  let ?other = "\<lparr> req_email = ''f'', req_secret = ''s'', req_url = ''http://h/q1'' \<rparr>"
  have h1: "Some (req_secret ?good) = SECRET_STRING ?env
        \<and> Some (req_email ?good) = STUDENT_EMAIL ?env
        \<and> GEMINI_API_KEY ?env = Some ''k'' \<and> ''k'' \<noteq> []
        \<and> req_url ?good \<noteq> [] \<and> fetch_quiz_page (fetch_fails_from 1) 1 (PStr (req_url ?good)) = None"
    by (simp add: fetch_fails_from_def)
  have h2: "Some (req_secret ?bad) \<noteq> SECRET_STRING ?env" by simp
  have h3: "Some (req_secret ?other) = SECRET_STRING ?env
        \<and> Some (req_email ?other) \<noteq> STUDENT_EMAIL ?env" by simp
  from h1 solve_quiz_reports_success [of ?good ?env "fetch_fails_from 1" "''k''"]
  have 1: "solve_quiz (fetch_fails_from 1) ?env ?good
     = Returned (PDict [(''status'', PStr ''success''),
                        (''message'', PStr ''Quiz solving completed''),
                        (''result'', PDict [(''questions_solved'', PInt 1)])])"
    by blast
  from h2 solve_quiz_reports_success [of ?bad ?env "fetch_fails_from 1" "''k''"]
  have 2: "solve_quiz (fetch_fails_from 1) ?env ?bad = HttpException 403 ''Invalid secret''"
    by blast
  from h3 solve_quiz_reports_success [of ?other ?env "fetch_fails_from 1" "''k''"]
  have 3: "solve_quiz (fetch_fails_from 1) ?env ?other = HttpException 403 ''Invalid email''"
    by blast
  from 1 2 3 show ?thesis by blast
qed

text \<open>
  The claim as stated fails: rendering the first question raises, and the response body
  is the \<open>success\<close> one, not \<open>{status: "error", message}\<close>.
\<close>

theorem solve_quiz_reports_success_counterexample:
  "fetch_quiz_page (fetch_fails_from 1) 1 (PStr ''http://h/q1'') = None
   \<and> solve_quiz (fetch_fails_from 1)
     \<lparr> SECRET_STRING = Some ''s'', STUDENT_EMAIL = Some ''e'', GEMINI_API_KEY = Some ''k'' \<rparr>
     \<lparr> req_email = ''e'', req_secret = ''s'', req_url = ''http://h/q1'' \<rparr>
     = Returned (PDict [(''status'', PStr ''success''),
                        (''message'', PStr ''Quiz solving completed''),
                        (''result'', PDict [(''questions_solved'', PInt 1)])])"
proof -
  let ?cfg = "\<lparr> email = Some ''e'', secret = Some ''s'' \<rparr>"
  have f: "fetch_quiz_page (fetch_fails_from 1) 1 (PStr ''http://h/q1'') = None"
    by (simp add: fetch_fails_from_def)
  then have "question_body (fetch_fails_from 1) ?cfg (0 + 1) (PStr ''http://h/q1'') = None"
    by (simp add: question_body_def)
  then have "chain_loop (fetch_fails_from 1) ?cfg (PStr ''http://h/q1'') 0 = 0 + 1"
    by (intro chain_loop_break) (simp_all add: py_truthy_def max_questions_def)
  with f show ?thesis
    by (simp add: solve_quiz_def quiz_solver_init_def llm_handler_init_def solve_quiz_chain_def)
qed

text \<open>
  Outside the amended claim: the solver is built before the \<open>try\<close>, so with the API key
  unset the \<open>ValueError\<close> of \<open>LLMHandler.__init__\<close> leaves the handler.
\<close>

lemma solve_quiz_escapes_without_key:
  "solve_quiz w \<lparr> SECRET_STRING = Some ''s'', STUDENT_EMAIL = Some ''e'', GEMINI_API_KEY = None \<rparr>
     \<lparr> req_email = ''e'', req_secret = ''s'', req_url = ''http://h/q1'' \<rparr>
     = Escaped ''GEMINI_API_KEY not found in environment variables''"
  by (simp add: solve_quiz_def quiz_solver_init_def llm_handler_init_def)
section \<open>Claim about PDF extraction\<close>

text \<open>
  Claim C8. When \<open>pdfplumber\<close> opens the document and its pages answer, the entries of
  \<open>tables\<close> are those of the tables that have a frame, each under its page and its own
  number on the page, in document order: a table without a frame costs its own entry and
  no other, on its page or later. The text holds the block of every page with text. For
  a document of two pages with text, page 1 with one malformed table and page 2 with one
  valid table, the result is the text of both pages and one entry, the table of page 2.
\<close>

theorem extract_pdf_data_skips_malformed_tables:
  "(plumber_open libs = Gives pages
      \<and> map extract_text pages = map Gives texts
      \<and> map extract_tables pages = map Gives tss \<longrightarrow>
        pdf_tables (extract_pdf_data make_df libs) = document_entries make_df 1 tss
      \<and> set (pdf_tables (extract_pdf_data make_df libs)) =
          {\<lparr> page = i + 1, table_number = j + 1, data = df \<rparr> | i j df.
             i < length tss \<and> j < length (tss ! i) \<and> table_frame make_df (tss ! i ! j) = Some df}
      \<and> pdf_text (extract_pdf_data make_df libs)
          = py_join [CHR 0x0A, CHR 0x0A] (document_blocks 1 texts))
   \<and> (plumber_open libs = Gives [p1, p2]
      \<and> extract_text p1 = Gives (Some t1) \<and> t1 \<noteq> []
      \<and> extract_tables p1 = Gives [malformed] \<and> table_frame make_df malformed = None
      \<and> extract_text p2 = Gives (Some t2) \<and> t2 \<noteq> []
      \<and> extract_tables p2 = Gives [valid] \<and> table_frame make_df valid = Some df2 \<longrightarrow>
        extract_pdf_data make_df libs =
          \<lparr> pdf_text = page_block 1 t1 @ [CHR 0x0A, CHR 0x0A] @ page_block 2 t2,
            pdf_tables = [\<lparr> page = 2, table_number = 1, data = df2 \<rparr>] \<rparr>)"
proof (intro conjI impI)
  assume a: "plumber_open libs = Gives pages
      \<and> map extract_text pages = map Gives texts
      \<and> map extract_tables pages = map Gives tss"
  then have r: "extract_pdf_data make_df libs =
        \<lparr> pdf_text = py_join [CHR 0x0A, CHR 0x0A] (document_blocks 1 texts),
          pdf_tables = document_entries make_df 1 tss \<rparr>"
    by (intro extract_pdf_data_document) blast+
  show "pdf_tables (extract_pdf_data make_df libs) = document_entries make_df 1 tss"
    by (simp add: r)
  show "set (pdf_tables (extract_pdf_data make_df libs)) =
          {\<lparr> page = i + 1, table_number = j + 1, data = df \<rparr> | i j df.
             i < length tss \<and> j < length (tss ! i) \<and> table_frame make_df (tss ! i ! j) = Some df}"
    by (simp only: r pdf_data.simps set_document_entries)
  show "pdf_text (extract_pdf_data make_df libs)
          = py_join [CHR 0x0A, CHR 0x0A] (document_blocks 1 texts)"
    by (simp add: r)
next
  assume a: "plumber_open libs = Gives [p1, p2]
      \<and> extract_text p1 = Gives (Some t1) \<and> t1 \<noteq> []
      \<and> extract_tables p1 = Gives [malformed] \<and> table_frame make_df malformed = None
      \<and> extract_text p2 = Gives (Some t2) \<and> t2 \<noteq> []
      \<and> extract_tables p2 = Gives [valid] \<and> table_frame make_df valid = Some df2"
  then have "plumber_open libs = Gives [p1, p2]"
    "map extract_text [p1, p2] = map Gives [Some t1, Some t2]"
    "map extract_tables [p1, p2] = map Gives [[malformed], [valid]]"
    by simp_all
  then have "extract_pdf_data make_df libs =
        \<lparr> pdf_text = py_join [CHR 0x0A, CHR 0x0A] (document_blocks 1 [Some t1, Some t2]),
          pdf_tables = document_entries make_df 1 [[malformed], [valid]] \<rparr>"
    by (rule extract_pdf_data_document)
  moreover from a have "document_blocks 1 [Some t1, Some t2] = [page_block 1 t1, page_block 2 t2]"
    by (simp add: document_blocks_def numeral_2_eq_2)
  moreover from a have "document_entries make_df 1 [[malformed], [valid]]
      = [\<lparr> page = 2, table_number = 1, data = df2 \<rparr>]"
    by (simp add: document_entries_def page_entries_def numeral_2_eq_2)
  ultimately show "extract_pdf_data make_df libs =
          \<lparr> pdf_text = page_block 1 t1 @ [CHR 0x0A, CHR 0x0A] @ page_block 2 t2,
            pdf_tables = [\<lparr> page = 2, table_number = 1, data = df2 \<rparr>] \<rparr>"
    by simp
qed

text \<open>
  The two-page document: the narrow row makes the table of page 1 malformed; page 2
  gives the one entry.
\<close>

theorem extract_pdf_data_skips_malformed_tables_witness:
  "extract_pdf_data example_frame two_page_pdf =
     \<lparr> pdf_text = ''=== Page 1 ==='' @ [CHR 0x0A] @ ''Intro'' @ [CHR 0x0A, CHR 0x0A]
                  @ ''=== Page 2 ==='' @ [CHR 0x0A] @ ''Data'',
       pdf_tables = [\<lparr> page = 2, table_number = 1,
                       data = ([Some ''a'', Some ''b''], [[Some ''1'', Some ''2'']]) \<rparr>] \<rparr>
   \<and> pdf_tables (extract_pdf_data example_frame two_page_pdf) =
       document_entries example_frame 1
         [[[[Some ''a'', Some ''b''], [Some ''1'']]],
          [[[Some ''a'', Some ''b''], [Some ''1'', Some ''2'']]]]"
proof -
  let ?bad = "[[Some ''a'', Some ''b''], [Some ''1'']] :: table"
  let ?good = "[[Some ''a'', Some ''b''], [Some ''1'', Some ''2'']] :: table"
  let ?df = "([Some ''a'', Some ''b''], [[Some ''1'', Some ''2'']]) :: cell list \<times> table"
  have h: "plumber_open two_page_pdf = Gives [intro_page, data_page]
      \<and> extract_text intro_page = Gives (Some ''Intro'') \<and> ''Intro'' \<noteq> []
      \<and> extract_tables intro_page = Gives [?bad] \<and> table_frame example_frame ?bad = None
      \<and> extract_text data_page = Gives (Some ''Data'') \<and> ''Data'' \<noteq> []
      \<and> extract_tables data_page = Gives [?good] \<and> table_frame example_frame ?good = Some ?df"
    by (simp add: two_page_pdf_def intro_page_def data_page_def table_frame_def example_frame_def)
  have b: "page_block 1 ''Intro'' = ''=== Page 1 ==='' @ [CHR 0x0A] @ ''Intro''"
      "page_block 2 ''Data'' = ''=== Page 2 ==='' @ [CHR 0x0A] @ ''Data''"
    by (simp_all add: page_block_def digit_eval)
  from h have "extract_pdf_data example_frame two_page_pdf =
          \<lparr> pdf_text = page_block 1 ''Intro'' @ [CHR 0x0A, CHR 0x0A] @ page_block 2 ''Data'',
            pdf_tables = [\<lparr> page = 2, table_number = 1, data = ?df \<rparr>] \<rparr>"
    using extract_pdf_data_skips_malformed_tables
      [where libs = two_page_pdf and ?p1.0 = intro_page and ?p2.0 = data_page
         and make_df = example_frame and ?t1.0 = "''Intro''" and ?t2.0 = "''Data''"
         and malformed = ?bad and valid = ?good and ?df2.0 = ?df]
    by blast
  then have 1: "extract_pdf_data example_frame two_page_pdf =
     \<lparr> pdf_text = ''=== Page 1 ==='' @ [CHR 0x0A] @ ''Intro'' @ [CHR 0x0A, CHR 0x0A]
                  @ ''=== Page 2 ==='' @ [CHR 0x0A] @ ''Data'',
       pdf_tables = [\<lparr> page = 2, table_number = 1, data = ?df \<rparr>] \<rparr>"
    unfolding b by simp
  have g: "plumber_open two_page_pdf = Gives [intro_page, data_page]
      \<and> map extract_text [intro_page, data_page] = map Gives [Some ''Intro'', Some ''Data'']
      \<and> map extract_tables [intro_page, data_page] = map Gives [[?bad], [?good]]"
    by (simp add: two_page_pdf_def intro_page_def data_page_def)
  have 2: "pdf_tables (extract_pdf_data example_frame two_page_pdf) =
       document_entries example_frame 1 [[?bad], [?good]]"
    using g extract_pdf_data_skips_malformed_tables
      [where libs = two_page_pdf and pages = "[intro_page, data_page]"
         and texts = "[Some ''Intro'', Some ''Data'']" and tss = "[[?bad], [?good]]"
         and make_df = example_frame]
    by blast
  from 1 2 show ?thesis by blast
qed

end
